theory Spec2Isabelle
  imports Main "HOL-Library.Word"
begin

unbundle bit_operations_syntax

section \<open>The extent-query interface\<close>

text \<open>
  Modelled from the spec: \<^verbatim>\<open>struct fiemap_extent\<close> and \<^verbatim>\<open>struct fiemap\<close> are
  declared in the kernel header \<^verbatim>\<open>linux/fiemap.h\<close>, which \<^verbatim>\<open>fiemap.c\<close> includes and
  which is not among the sources. An extent has a logical offset, a physical offset and
  a length (unsigned 64-bit) and a flag word; the reserved fields, which the program
  never looks at, are left out. The flexible array member \<^verbatim>\<open>fm_extents\<close> is a map from
  slot numbers to extents: how many slots exist is a matter of the allocation, not of
  the type.
\<close>

record fiemap_extent =
  fe_logical :: "64 word"
  fe_physical :: "64 word"
  fe_length :: "64 word"
  fe_flags :: "32 word"

record fiemap =
  fm_start :: "64 word"
  fm_length :: "64 word"
  fm_flags :: "32 word"
  fm_mapped_extents :: "32 word"
  fm_extent_count :: "32 word"
  fm_extents :: "nat \<Rightarrow> fiemap_extent"

text \<open>
  Modelled from the spec: the flush-before-report request flag and the last-extent bit,
  with the values \<^verbatim>\<open>linux/fiemap.h\<close> gives them (both are bit 0 of their flag word),
  the sizes of the two structures under the 64-bit Linux ABI, and the largest object
  size of that ABI (\<^verbatim>\<open>PTRDIFF_MAX\<close> of \<^verbatim>\<open>stdint.h\<close>).
\<close>

definition FIEMAP_FLAG_SYNC :: "32 word" where
  "FIEMAP_FLAG_SYNC = 1"

definition FIEMAP_EXTENT_LAST :: "32 word" where
  "FIEMAP_EXTENT_LAST = 1"

definition sizeof_fiemap :: "64 word" where
  "sizeof_fiemap = 32"

definition sizeof_fiemap_extent :: "64 word" where
  "sizeof_fiemap_extent = 56"

definition PTRDIFF_MAX :: nat where
  "PTRDIFF_MAX = 2 ^ 63 - 1"

section \<open>The environment of one \<^verbatim>\<open>read_fiemap\<close> call\<close>

text \<open>
  What the operating system and the C library answer to one call of \<^verbatim>\<open>read_fiemap(fd)\<close>:
  \<^item> \<open>fstat\<close>: \<open>None\<close> when \<^verbatim>\<open>fstat\<close> fails, else \<^verbatim>\<open>st_size\<close> as the 64 bits that
    the assignment to the \<^verbatim>\<open>__u64 fiemap_length\<close> keeps;
  \<^item> \<open>alloc_ok n sz\<close>: whether the \<open>n\<close>-th allocation request succeeds. Request 0 is
    the \<^verbatim>\<open>malloc\<close> of the chunk buffer, request 1 the \<^verbatim>\<open>malloc\<close> of the result header,
    request \<open>2 + k\<close> the \<^verbatim>\<open>realloc\<close> of the loop iteration that follows \<open>k\<close> earlier
    \<^verbatim>\<open>ioctl\<close> calls;
  \<^item> \<open>ioctl k buffer\<close>: the return value of the \<open>k\<close>-th \<^verbatim>\<open>FS_IOC_FIEMAP\<close> call (counted
    from 0) on the given buffer, and the buffer as the kernel leaves it.
\<close>

record env =
  fstat :: "64 word option"
  alloc_ok :: "nat \<Rightarrow> 64 word \<Rightarrow> bool"
  ioctl :: "nat \<Rightarrow> fiemap \<Rightarrow> int \<times> fiemap"

section \<open>\<^verbatim>\<open>read_fiemap\<close>\<close>

definition MAX_EXTENTS :: "32 word" where
  "MAX_EXTENTS = 1024"

definition SIZE_OF_EXTENTS :: "64 word" where
  "SIZE_OF_EXTENTS = sizeof_fiemap_extent * ucast MAX_EXTENTS"

text \<open>One \<^verbatim>\<open>ioctl\<close> call as the driver made it: the buffer passed, the return value, the
  buffer afterwards.\<close>

record ioctl_call =
  request :: fiemap
  retval :: int
  reply :: fiemap

text \<open>
  The variables that live across loop iterations: \<^verbatim>\<open>result_extents\<close>, \<^verbatim>\<open>fiemap_start\<close>,
  the extents stored so far in \<^verbatim>\<open>result_fiemap->fm_extents\<close>, and the \<^verbatim>\<open>ioctl\<close> calls
  made so far (the driver's observable effect on the kernel).
\<close>

record driver_state =
  result_extents :: "32 word"
  fiemap_start :: "64 word"
  result_fm_extents :: "fiemap_extent list"
  calls :: "ioctl_call list"

text \<open>
  The ways \<^verbatim>\<open>read_fiemap\<close> returns \<^verbatim>\<open>NULL\<close>, named after the message printed to
  \<^verbatim>\<open>stderr\<close>. \<open>Undefined_behaviour\<close> is not a return: it marks a run in which the C
  program reads or writes outside an allocated block (or reallocates to size 0 and then
  frees again), from where on C defines no behaviour.
\<close>

datatype failure = Cannot_determine_file_size | Out_of_memory | Ioctl_failed | Undefined_behaviour

text \<open>The returned \<^verbatim>\<open>result_fiemap\<close>: \<^verbatim>\<open>fm_mapped_extents\<close> and the extent array. Its
  other header fields are never written.\<close>

record result =
  res_mapped_extents :: "32 word"
  res_extents :: "fiemap_extent list"

text \<open>The two heap blocks of a call: \<^verbatim>\<open>fiemap\<close> and \<^verbatim>\<open>result_fiemap\<close>.\<close>

datatype block = Chunk_buffer | Result_buffer

record outcome =
  returned :: "failure + result"
  issued :: "ioctl_call list"
  live :: "block set"

definition zero_extent :: fiemap_extent where
  "zero_extent = \<lparr>fe_logical = 0, fe_physical = 0, fe_length = 0, fe_flags = 0\<rparr>"

text \<open>Lines 116-122: both \<^verbatim>\<open>memset\<close>s, then the four assignments.\<close>

definition build_request :: "64 word \<Rightarrow> 64 word \<Rightarrow> fiemap" where
  "build_request start len =
     \<lparr>fm_start = 0, fm_length = 0, fm_flags = 0, fm_mapped_extents = 0,
      fm_extent_count = 0, fm_extents = (\<lambda>_. zero_extent)\<rparr>
     \<lparr>fm_start := start, fm_length := len, fm_flags := FIEMAP_FLAG_SYNC,
      fm_extent_count := MAX_EXTENTS\<rparr>"

text \<open>
  Line 140: the product is computed in \<^verbatim>\<open>size_t\<close> (the sum of the two \<^verbatim>\<open>__u32\<close> counts
  wraps at \<open>2 ^ 32\<close> first) and stored in an \<^verbatim>\<open>int\<close>, which keeps its low 32 bits.
  Line 143: the \<^verbatim>\<open>int\<close> is converted back to \<^verbatim>\<open>size_t\<close> with its sign.
\<close>

definition extents_size :: "32 word \<Rightarrow> 32 word \<Rightarrow> 32 word" where
  "extents_size n m = ucast (sizeof_fiemap_extent * ucast (n + m))"

definition realloc_size :: "32 word \<Rightarrow> 64 word" where
  "realloc_size es = sizeof_fiemap + scast es"

text \<open>The first \<^verbatim>\<open>fm_mapped_extents\<close> slots of a buffer, its last mapped slot, and where
  that extent ends.\<close>

definition mapped_extents :: "fiemap \<Rightarrow> fiemap_extent list" where
  "mapped_extents fm = map (fm_extents fm) [0..<unat (fm_mapped_extents fm)]"

definition last_mapped :: "fiemap \<Rightarrow> fiemap_extent" where
  "last_mapped fm = fm_extents fm (unat (fm_mapped_extents fm - 1))"

definition extent_end :: "fiemap_extent \<Rightarrow> 64 word" where
  "extent_end x = fe_logical x + fe_length x"

text \<open>How one run of the loop body (lines 116-166) leaves the loop.\<close>

datatype flow = Next driver_state | Break driver_state | Goto_fail_cleanup failure driver_state

definition loop_body :: "env \<Rightarrow> 64 word \<Rightarrow> driver_state \<Rightarrow> flow" where
  "loop_body e fiemap_length s =
     (let buffer = build_request (fiemap_start s) fiemap_length;
          (rc, fiemap) = ioctl e (length (calls s)) buffer;
          s1 = s\<lparr>calls := calls s @ [\<lparr>request = buffer, retval = rc, reply = fiemap\<rparr>]\<rparr>
      in if rc < 0 then Goto_fail_cleanup Ioctl_failed s1
         else if MAX_EXTENTS < fm_mapped_extents fiemap then
           \<comment> \<open>\<^verbatim>\<open>dump_extents\<close> reads past the 1024 slots of the buffer\<close>
           Goto_fail_cleanup Undefined_behaviour s1
         else if fm_mapped_extents fiemap = 0 then Break s1
         else
           let new_size =
                 realloc_size (extents_size (result_extents s) (fm_mapped_extents fiemap))
           in if new_size = 0 then Goto_fail_cleanup Undefined_behaviour s1
              else if \<not> alloc_ok e (2 + length (calls s)) new_size then
                Goto_fail_cleanup Out_of_memory s1
              else if unat new_size < unat sizeof_fiemap + unat sizeof_fiemap_extent *
                        (unat (result_extents s) + unat (fm_mapped_extents fiemap)) then
                \<comment> \<open>\<^verbatim>\<open>memcpy\<close> writes past the end of the reallocated block\<close>
                Goto_fail_cleanup Undefined_behaviour s1
              else
                let s2 = s1\<lparr>result_fm_extents :=
                               take (unat (result_extents s)) (result_fm_extents s) @
                               mapped_extents fiemap,
                             result_extents := result_extents s + fm_mapped_extents fiemap\<rparr>
                in if fm_mapped_extents fiemap \<noteq> 0 then
                     let s3 = s2\<lparr>fiemap_start := extent_end (last_mapped fiemap)\<rparr>
                     in if fe_flags (last_mapped fiemap) AND FIEMAP_EXTENT_LAST \<noteq> 0
                        then Break s3 else Next s3
                   else Next s2)"

text \<open>Lines 169-175: the normal exit frees the chunk buffer and returns the result.\<close>

definition finish :: "driver_state \<Rightarrow> outcome" where
  "finish s =
     \<lparr>returned = Inr \<lparr>res_mapped_extents = result_extents s,
                       res_extents = result_fm_extents s\<rparr>,
      issued = calls s,
      live = {Chunk_buffer, Result_buffer} - {Chunk_buffer}\<rparr>"

text \<open>Lines 177-184: \<^verbatim>\<open>fail_cleanup\<close> frees whichever of the two blocks is allocated.\<close>

definition fail_cleanup :: "failure \<Rightarrow> block set \<Rightarrow> ioctl_call list \<Rightarrow> outcome" where
  "fail_cleanup f allocated cs =
     \<lparr>returned = Inl f, issued = cs,
      live = (allocated - {Result_buffer}) - {Chunk_buffer}\<rparr>"

text \<open>The \<^verbatim>\<open>while\<close> loop of lines 115-167 and what follows it. A run that never leaves
  the loop has the value \<open>None\<close>.\<close>

partial_function (option) read_loop :: "env \<Rightarrow> 64 word \<Rightarrow> driver_state \<Rightarrow> outcome option" where
  "read_loop e fiemap_length s =
     (if fiemap_start s < fiemap_length then
        (case loop_body e fiemap_length s of
           Next s' \<Rightarrow> read_loop e fiemap_length s'
         | Break s' \<Rightarrow> Some (finish s')
         | Goto_fail_cleanup f s' \<Rightarrow>
             Some (fail_cleanup f {Chunk_buffer, Result_buffer} (calls s')))
      else Some (finish s))"

definition initial_state :: driver_state where
  "initial_state =
     \<lparr>result_extents = 0, fiemap_start = 0, result_fm_extents = [], calls = []\<rparr>"

definition read_fiemap :: "env \<Rightarrow> outcome option" where
  "read_fiemap e =
     (case fstat e of
        None \<Rightarrow> Some \<lparr>returned = Inl Cannot_determine_file_size, issued = [], live = {}\<rparr>
      | Some st_size \<Rightarrow>
          if \<not> alloc_ok e 0 (sizeof_fiemap + SIZE_OF_EXTENTS) then
            Some \<lparr>returned = Inl Out_of_memory, issued = [], live = {}\<rparr>
          else if \<not> alloc_ok e 1 sizeof_fiemap then
            Some (fail_cleanup Out_of_memory {Chunk_buffer} [])
          else read_loop e st_size initial_state)"

section \<open>\<^verbatim>\<open>main\<close>\<close>

text \<open>
  What \<^verbatim>\<open>main\<close> leaves on its two output streams, one entry per message: the usage
  line of \<^verbatim>\<open>syntax\<close>, the complaint about a file that cannot be opened, the message
  \<^verbatim>\<open>read_fiemap\<close> prints before it returns \<^verbatim>\<open>NULL\<close> (all three on \<^verbatim>\<open>stderr\<close>), and the
  line of \<^verbatim>\<open>dump_fiemap\<close> on \<^verbatim>\<open>stdout\<close>. The extent tables and timings that
  \<^verbatim>\<open>read_fiemap\<close> prints on \<^verbatim>\<open>stdout\<close> are not recorded.
\<close>

datatype message =
    Syntax string
  | Cannot_open string
  | Read_failed failure
  | File_has_extents string "32 word"

text \<open>\<open>None\<close> (of the option around it) is a run that never exits; \<open>Undefined\<close> one in
  which \<^verbatim>\<open>read_fiemap\<close> left defined behaviour.\<close>

datatype ending = Exit int "message list" | Undefined "message list"

definition EXIT_SUCCESS :: int where
  "EXIT_SUCCESS = 0"

definition EXIT_FAILURE :: int where
  "EXIT_FAILURE = 1"

text \<open>
  The \<^verbatim>\<open>for\<close> loop of lines 196-210 over \<^verbatim>\<open>argv[i]\<close>, \<^verbatim>\<open>argv[i + 1]\<close>, ...;
  \<open>open_file i name\<close> is \<open>None\<close> when \<^verbatim>\<open>open(argv[i], O_RDONLY)\<close> fails and else the
  environment that \<^verbatim>\<open>read_fiemap\<close> meets on the descriptor.
\<close>

fun process_files ::
  "(nat \<Rightarrow> string \<Rightarrow> env option) \<Rightarrow> nat \<Rightarrow> string list \<Rightarrow> message list \<Rightarrow> ending option"
where
  "process_files open_file i [] out = Some (Exit EXIT_SUCCESS out)"
| "process_files open_file i (name # rest) out =
     (case open_file i name of
        None \<Rightarrow> process_files open_file (Suc i) rest (out @ [Cannot_open name])
      | Some e \<Rightarrow>
          (case read_fiemap e of
             None \<Rightarrow> None
           | Some r \<Rightarrow>
               (case returned r of
                  Inl Undefined_behaviour \<Rightarrow> Some (Undefined out)
                | Inl f \<Rightarrow> process_files open_file (Suc i) rest (out @ [Read_failed f])
                | Inr fiemap \<Rightarrow>
                    process_files open_file (Suc i) rest
                      (out @ [File_has_extents name (res_mapped_extents fiemap)]))))"

text \<open>\<^verbatim>\<open>main(argc, argv)\<close> with \<^verbatim>\<open>argc\<close> the length of \<^verbatim>\<open>argv\<close>. With an empty
  \<^verbatim>\<open>argv\<close>, \<^verbatim>\<open>syntax\<close> passes the null pointer \<^verbatim>\<open>argv[0]\<close> to \<^verbatim>\<open>%s\<close>.\<close>

definition main :: "(nat \<Rightarrow> string \<Rightarrow> env option) \<Rightarrow> string list \<Rightarrow> ending option" where
  "main open_file argv =
     (case argv of
        [] \<Rightarrow> Some (Undefined [])
      | prog # files \<Rightarrow>
          if int (length argv) < 2 then Some (Exit EXIT_FAILURE [Syntax prog])
          else process_files open_file 1 files [])"

section \<open>Notions the properties are stated with\<close>

text \<open>The states in which the loop condition of line 115 is evaluated.\<close>

inductive reachable :: "env \<Rightarrow> 64 word \<Rightarrow> driver_state \<Rightarrow> bool"
  for e :: env and fiemap_length :: "64 word"
where
  start: "reachable e fiemap_length initial_state"
| iterate: "reachable e fiemap_length s \<Longrightarrow> fiemap_start s < fiemap_length \<Longrightarrow>
     loop_body e fiemap_length s = Next s' \<Longrightarrow> reachable e fiemap_length s'"

text \<open>
  The calls the driver makes as long as it stays in the loop: where the cursor
  \<^verbatim>\<open>fiemap_start\<close> stands after the calls \<open>cs\<close> (each of which mapped an extent), the
  call that comes next, and the first \<open>n\<close> calls.
\<close>

definition chunk_cursor :: "ioctl_call list \<Rightarrow> 64 word" where
  "chunk_cursor cs = (if cs = [] then 0 else extent_end (last_mapped (reply (last cs))))"

definition next_call :: "env \<Rightarrow> 64 word \<Rightarrow> ioctl_call list \<Rightarrow> ioctl_call" where
  "next_call e len cs =
     (let buffer = build_request (chunk_cursor cs) len;
          (rc, fm) = ioctl e (length cs) buffer
      in \<lparr>request = buffer, retval = rc, reply = fm\<rparr>)"

fun queries :: "env \<Rightarrow> 64 word \<Rightarrow> nat \<Rightarrow> ioctl_call list" where
  "queries e len 0 = []"
| "queries e len (Suc n) = queries e len n @ [next_call e len (queries e len n)]"

text \<open>The sum of the mapped-extent counts the calls returned, and their mapped extents
  one chunk after the other.\<close>

definition mapped_total :: "ioctl_call list \<Rightarrow> nat" where
  "mapped_total cs = sum_list (map (\<lambda>c. unat (fm_mapped_extents (reply c))) cs)"

definition all_mapped :: "ioctl_call list \<Rightarrow> fiemap_extent list" where
  "all_mapped cs = concat (map (\<lambda>c. mapped_extents (reply c)) cs)"

text \<open>The state at the loop condition once the first \<open>n\<close> calls have all been appended.\<close>

definition state_after :: "env \<Rightarrow> 64 word \<Rightarrow> nat \<Rightarrow> driver_state" where
  "state_after e len n =
     \<lparr>result_extents = of_nat (mapped_total (queries e len n)),
      fiemap_start = chunk_cursor (queries e len n),
      result_fm_extents = all_mapped (queries e len n),
      calls = queries e len n\<rparr>"

text \<open>
  A successful call after which the driver queries again, and one after which it stops:
  the last mapped extent carries the last-extent flag, or no extent was mapped, or the
  cursor has reached the file size.
\<close>

definition flagged_last :: "fiemap \<Rightarrow> bool" where
  "flagged_last fm \<longleftrightarrow> fe_flags (last_mapped fm) AND FIEMAP_EXTENT_LAST \<noteq> 0"

definition continues :: "64 word \<Rightarrow> ioctl_call \<Rightarrow> bool" where
  "continues len c \<longleftrightarrow>
     0 \<le> retval c \<and> fm_mapped_extents (reply c) \<noteq> 0 \<and> \<not> flagged_last (reply c) \<and>
     extent_end (last_mapped (reply c)) < len"

definition stops :: "64 word \<Rightarrow> ioctl_call \<Rightarrow> bool" where
  "stops len c \<longleftrightarrow>
     0 \<le> retval c \<and>
     (fm_mapped_extents (reply c) = 0 \<or> flagged_last (reply c) \<or>
      len \<le> extent_end (last_mapped (reply c)))"

text \<open>
  The \<open>k\<close>-th request of a run with the calls \<open>cs\<close> on a file of size \<open>len\<close>: zeroed,
  starting where the last extent of the previous chunk ends (at 0 for the first call),
  its length the file size, 1024 slots, the flush flag set.
\<close>

definition expected_request :: "64 word \<Rightarrow> ioctl_call list \<Rightarrow> nat \<Rightarrow> fiemap" where
  "expected_request len cs k =
     \<lparr>fm_start = (if k = 0 then 0 else extent_end (last_mapped (reply (cs ! (k - 1))))),
      fm_length = len, fm_flags = FIEMAP_FLAG_SYNC, fm_mapped_extents = 0,
      fm_extent_count = 1024, fm_extents = (\<lambda>_. zero_extent)\<rparr>"

text \<open>An allocator that grants no request above \<^verbatim>\<open>PTRDIFF_MAX\<close> bytes (as no
  implementation can), and a kernel that maps no more extents than the request's
  \<^verbatim>\<open>fm_extent_count\<close> allows (the contract of \<^verbatim>\<open>FS_IOC_FIEMAP\<close>).\<close>

definition sane_allocator :: "env \<Rightarrow> bool" where
  "sane_allocator e = (\<forall>n sz. alloc_ok e n sz \<longrightarrow> unat sz \<le> PTRDIFF_MAX)"

definition honours_capacity :: "env \<Rightarrow> bool" where
  "honours_capacity e =
     (\<forall>k buffer. 0 \<le> fst (ioctl e k buffer) \<longrightarrow>
        fm_mapped_extents (snd (ioctl e k buffer)) \<le> fm_extent_count buffer)"

text \<open>What the loop keeps true of its variables: the result holds the mapped extents of
  the calls so far, one chunk after the other, and its count is their number.\<close>

definition consistent :: "driver_state \<Rightarrow> bool" where
  "consistent s \<longleftrightarrow>
     result_fm_extents s = all_mapped (calls s) \<and>
     unat (result_extents s) = mapped_total (calls s)"

text \<open>
  What one file argument leaves on the output: the complaint of \<^verbatim>\<open>main\<close> when it
  cannot be opened, the message of \<^verbatim>\<open>read_fiemap\<close> when that fails, and else the line
  with the extent count.
\<close>

definition reported :: "(nat \<Rightarrow> string \<Rightarrow> env option) \<Rightarrow> nat \<Rightarrow> string \<Rightarrow> message \<Rightarrow> bool" where
  "reported open_file i name msg \<longleftrightarrow>
     (case open_file i name of
        None \<Rightarrow> msg = Cannot_open name
      | Some e \<Rightarrow>
          (case read_fiemap e of
             None \<Rightarrow> False
           | Some r \<Rightarrow>
               (case returned r of
                  Inl f \<Rightarrow> msg = Read_failed f
                | Inr fiemap \<Rightarrow> msg = File_has_extents name (res_mapped_extents fiemap))))"

section \<open>Simulated files\<close>

text \<open>
  A simulated interface: the file size, and for each call in turn the return value and
  the extents the kernel has to report, of which it writes as many into the first slots
  of the buffer as \<^verbatim>\<open>fm_extent_count\<close> allows (calls beyond the script fail). The
  allocator grants every request of up to 1 MiB.
\<close>

definition scripted :: "64 word \<Rightarrow> (int \<times> fiemap_extent list) list \<Rightarrow> env" where
  "scripted st_size script =
     \<lparr>fstat = Some st_size,
      alloc_ok = (\<lambda>n sz. unat sz \<le> 2 ^ 20),
      ioctl = (\<lambda>k buffer.
        if k < length script then
          let xs = take (unat (fm_extent_count buffer)) (snd (script ! k))
          in (fst (script ! k),
              buffer\<lparr>fm_mapped_extents := of_nat (length xs),
                     fm_extents := (\<lambda>i. if i < length xs then xs ! i
                                         else fm_extents buffer i)\<rparr>)
        else (- 1, buffer))\<rparr>"

text \<open>The extent of the \<open>i\<close>-th 4 KiB block of a file, flagged last or not.\<close>

definition block :: "bool \<Rightarrow> nat \<Rightarrow> fiemap_extent" where
  "block final i =
     \<lparr>fe_logical = 4096 * of_nat i, fe_physical = 1048576 + 4096 * of_nat i,
      fe_length = 4096, fe_flags = (if final then FIEMAP_EXTENT_LAST else 0)\<rparr>"

definition varying_chunks :: env where
  "varying_chunks =
     scripted (1028 * 4096)
       [(0, [block False 0]),
        (0, map (block False) [1..<1025]),
        (0, [block False 1025, block False 1026, block True 1027])]"

definition three_chunks :: env where
  "three_chunks =
     scripted (2053 * 4096)
       [(0, map (block False) [0..<1024]),
        (0, map (block False) [1024..<2048]),
        (0, map (block False) [2048..<2052] @ [block True 2052])]"

definition two_chunks :: env where
  "two_chunks = scripted 8192 [(0, [block False 0]), (0, [block True 1])]"

definition second_call_fails :: env where
  "second_call_fails = scripted 8192 [(0, [block False 0]), (- 1, [])]"

definition revisits :: env where
  "revisits =
     scripted 8192 [(0, [block False 0]), (0, [block False 0]), (0, [block True 1])]"

definition past_the_end :: env where
  "past_the_end = scripted 8192 [(0, [block False 0, block False 1])]"

definition empty_file :: env where
  "empty_file = scripted 0 []"

definition unreadable :: env where
  "unreadable = (scripted 0 [])\<lparr>fstat := None\<rparr>"

text \<open>A directory for \<^verbatim>\<open>main\<close>: one name that cannot be opened, one file whose second
  query fails, and two-chunk files under every other name.\<close>

definition some_files :: "nat \<Rightarrow> string \<Rightarrow> env option" where
  "some_files i name =
     (if name = ''missing'' then None
      else if name = ''broken'' then Some second_call_fails
      else Some two_chunks)"

section \<open>Sizes\<close>

text \<open>The byte counts of lines 140 and 143, as integers.\<close>

lemma sint32_cases: "sint (w :: 32 word) = (if uint w < 2 ^ 31 then uint w else uint w - 2 ^ 32)"
proof -
  have u: "uint w = sint w mod 2 ^ 32"
    by (simp add: uint_sint take_bit_eq_mod)
  have lo: "- (2 ^ 31) \<le> sint w" and hi: "sint w < 2 ^ 31"
    using sint_ge [of w] sint_lt [of w] by simp_all
  show ?thesis
  proof (cases "0 \<le> sint w")
    case True
    with hi have "sint w mod 2 ^ 32 = sint w" by simp
    with u hi show ?thesis by simp
  next
    case False
    have "sint w mod 2 ^ 32 = (sint w + 2 ^ 32) mod 2 ^ 32" by simp
    also have "\<dots> = sint w + 2 ^ 32"
      by (rule mod_pos_pos_trivial) (use lo hi False in simp_all)
    finally show ?thesis using u lo False by simp
  qed
qed

lemma realloc_size_uint: "uint (realloc_size es) = (32 + sint es) mod 2 ^ 64"
proof -
  have "uint (realloc_size es) = (uint (32 :: 64 word) + uint (word_of_int (sint es) :: 64 word)) mod 2 ^ 64"
    unfolding realloc_size_def sizeof_fiemap_def scast_eq
    by (simp only: uint_word_ariths) simp
  also have "\<dots> = (32 + sint es mod 2 ^ 64) mod 2 ^ 64"
    by (simp only: uint_word_of_int) simp
  also have "\<dots> = (32 + sint es) mod 2 ^ 64"
    by (simp only: mod_add_right_eq)
  finally show ?thesis .
qed

lemma extents_size_uint:
  "uint (extents_size n m) = (56 * ((uint n + uint m) mod 2 ^ 32)) mod 2 ^ 32"
  unfolding extents_size_def sizeof_fiemap_extent_def
  by (simp only: uint_word_ariths unsigned_ucast_eq take_bit_eq_mod) simp

text \<open>While the result stays below \<open>2 ^ 31\<close> bytes, the request is for exactly the bytes
  the header and all extents need.\<close>

lemma realloc_size_exact:
  assumes "56 * (unat n + unat m) < 2 ^ 31"
  shows "unat (realloc_size (extents_size n m)) = 32 + 56 * (unat n + unat m)"
proof -
  let ?N = "uint n + uint m"
  have N: "56 * ?N < 2 ^ 31" "0 \<le> ?N"
    using assms by (simp_all add: nat_int_comparison)
  then have "?N mod 2 ^ 32 = ?N" by simp
  then have "uint (extents_size n m) = 56 * ?N mod 2 ^ 32"
    by (simp only: extents_size_uint)
  also have "\<dots> = 56 * ?N" using N by simp
  finally have es: "uint (extents_size n m) = 56 * ?N" .
  with N have "sint (extents_size n m) = 56 * ?N"
    by (simp add: sint32_cases)
  then have "uint (realloc_size (extents_size n m)) = (32 + 56 * ?N) mod 2 ^ 64"
    by (simp only: realloc_size_uint)
  also have "\<dots> = 32 + 56 * ?N" using N by simp
  finally show ?thesis
    by (simp add: nat_int_comparison)
qed

text \<open>A request that a sane allocator can grant and that holds the extents is such a
  request.\<close>

lemma realloc_size_sound:
  assumes "unat (realloc_size (extents_size n m)) \<le> PTRDIFF_MAX"
    and "32 + 56 * (unat n + unat m) \<le> unat (realloc_size (extents_size n m))"
  shows "56 * (unat n + unat m) < 2 ^ 31"
proof -
  let ?es = "extents_size n m"
  let ?S = "uint (realloc_size ?es)"
  have S1: "?S \<le> 2 ^ 63 - 1" and S2: "32 + 56 * (uint n + uint m) \<le> ?S"
    using assms by (simp_all add: PTRDIFF_MAX_def nat_int_comparison)
  have bounds: "0 \<le> uint ?es" "uint ?es < 2 ^ 32"
    using uint_lt2p [of ?es] by simp_all
  have nn: "0 \<le> uint n + uint m" by simp
  show ?thesis
  proof (cases "uint ?es < 2 ^ 31")
    case True
    then have "?S = (32 + uint ?es) mod 2 ^ 64"
      by (simp only: realloc_size_uint sint32_cases if_True)
    also have "\<dots> = 32 + uint ?es" using True bounds by simp
    finally have "56 * (uint n + uint m) < 2 ^ 31" using S2 True by simp
    then show ?thesis by (simp add: nat_int_comparison)
  next
    case False
    then have S: "?S = (32 + (uint ?es - 2 ^ 32)) mod 2 ^ 64"
      by (simp only: realloc_size_uint sint32_cases if_False)
    show ?thesis
    proof (cases "32 + (uint ?es - 2 ^ 32) < 0")
      case True
      have "(32 + (uint ?es - 2 ^ 32)) mod 2 ^ 64 = (32 + (uint ?es - 2 ^ 32) + 2 ^ 64) mod 2 ^ 64"
        by (simp only: mod_add_self2)
      also have "\<dots> = 32 + (uint ?es - 2 ^ 32) + 2 ^ 64"
        by (rule mod_pos_pos_trivial) (use True bounds in simp_all)
      finally show ?thesis using S S1 bounds by simp
    next
      case ge: False
      have "(32 + (uint ?es - 2 ^ 32)) mod 2 ^ 64 = 32 + (uint ?es - 2 ^ 32)"
        by (rule mod_pos_pos_trivial) (use ge bounds in simp_all)
      then show ?thesis using S S2 bounds nn by simp
    qed
  qed
qed

text \<open>One more chunk of at most 1024 extents: the request is not for 0 bytes, and if it
  is within \<^verbatim>\<open>PTRDIFF_MAX\<close> it holds the extents.\<close>

lemma realloc_size_next:
  assumes "56 * unat n < 2 ^ 31" and "unat m \<le> 1024"
  shows "realloc_size (extents_size n m) \<noteq> 0"
    and "unat (realloc_size (extents_size n m)) \<le> PTRDIFF_MAX \<Longrightarrow>
         32 + 56 * (unat n + unat m) \<le> unat (realloc_size (extents_size n m))"
proof -
  let ?es = "extents_size n m"
  let ?S = "uint (realloc_size ?es)"
  let ?N = "uint n + uint m"
  have N: "56 * ?N < 2 ^ 31 + 57344" "0 \<le> ?N"
    using assms by (simp_all add: nat_int_comparison)
  then have "?N mod 2 ^ 32 = ?N" by simp
  then have "uint ?es = 56 * ?N mod 2 ^ 32"
    by (simp only: extents_size_uint)
  also have "\<dots> = 56 * ?N" using N by simp
  finally have es: "uint ?es = 56 * ?N" .
  have both: "?S \<noteq> 0 \<and> (?S \<le> 2 ^ 63 - 1 \<longrightarrow> 32 + 56 * ?N \<le> ?S)"
  proof (cases "uint ?es < 2 ^ 31")
    case True
    then have "?S = (32 + uint ?es) mod 2 ^ 64"
      by (simp only: realloc_size_uint sint32_cases if_True)
    also have "\<dots> = 32 + uint ?es" using True es N by simp
    finally have "?S = 32 + 56 * ?N" using es by simp
    moreover from N(2) have "0 < 32 + 56 * ?N" by arith
    ultimately show ?thesis by simp
  next
    case False
    then have "?S = (32 + (uint ?es - 2 ^ 32)) mod 2 ^ 64"
      by (simp only: realloc_size_uint sint32_cases if_False)
    also have "\<dots> = (32 + (uint ?es - 2 ^ 32) + 2 ^ 64) mod 2 ^ 64"
      by (simp only: mod_add_self2)
    also have "\<dots> = 32 + (uint ?es - 2 ^ 32) + 2 ^ 64"
      by (rule mod_pos_pos_trivial) (use False es N in simp_all)
    finally show ?thesis using False es N by simp
  qed
  from both show "realloc_size ?es \<noteq> 0"
    by (auto simp: uint_0_iff [symmetric] simp del: uint_0_iff)
  from both show "unat (realloc_size ?es) \<le> PTRDIFF_MAX \<Longrightarrow>
         32 + 56 * (unat n + unat m) \<le> unat (realloc_size ?es)"
    by (simp add: PTRDIFF_MAX_def nat_int_comparison)
qed

text \<open>A request that holds the extents was computed without the 32-bit sum wrapping.\<close>

lemma realloc_size_no_wrap:
  assumes "unat m \<le> 1024"
    and "32 + 56 * (unat n + unat m) \<le> unat (realloc_size (extents_size n m))"
  shows "unat n + unat m < 2 ^ 32"
proof (rule ccontr)
  assume "\<not> unat n + unat m < 2 ^ 32"
  let ?N = "uint n + uint m"
  let ?es = "extents_size n m"
  let ?S = "uint (realloc_size ?es)"
  have lo: "2 ^ 32 \<le> ?N"
    using \<open>\<not> unat n + unat m < 2 ^ 32\<close> by (simp add: nat_int_comparison)
  have "uint n < 2 ^ 32" using uint_lt2p [of n] by simp
  moreover have "uint m \<le> 1024" using assms(1) by (simp add: nat_int_comparison)
  ultimately have hi: "?N < 2 ^ 32 + 1024" by simp
  have fits: "32 + 56 * ?N \<le> ?S"
    using assms(2) by (simp add: nat_int_comparison)
  have "?N mod 2 ^ 32 = (?N - 2 ^ 32) mod 2 ^ 32"
    by (simp only: minus_mod_self2)
  also have "\<dots> = ?N - 2 ^ 32"
    by (rule mod_pos_pos_trivial) (use lo hi in simp_all)
  finally have "uint ?es = 56 * (?N - 2 ^ 32) mod 2 ^ 32"
    by (simp only: extents_size_uint)
  also have "\<dots> = 56 * (?N - 2 ^ 32)"
    by (rule mod_pos_pos_trivial) (use lo hi in simp_all)
  finally have es: "uint ?es = 56 * (?N - 2 ^ 32)" .
  with hi have "uint ?es < 2 ^ 31" by simp
  then have "?S = (32 + uint ?es) mod 2 ^ 64"
    by (simp only: realloc_size_uint sint32_cases if_True)
  also have "\<dots> = 32 + uint ?es"
    by (rule mod_pos_pos_trivial) (use es lo hi in simp_all)
  finally show False using fits es by simp
qed

lemma unat_sum_no_wrap:
  fixes n m :: "32 word"
  assumes "m \<le> MAX_EXTENTS"
    and "32 + 56 * (unat n + unat m) \<le> unat (realloc_size (extents_size n m))"
  shows "unat (n + m) = unat n + unat m"
proof -
  from assms(1) have "unat m \<le> 1024"
    by (simp add: MAX_EXTENTS_def word_le_nat_alt)
  then have "unat n + unat m < 2 ^ LENGTH(32)"
    using assms(2) realloc_size_no_wrap [of m n] by simp
  then show ?thesis by (simp only: unat_add_lem)
qed

lemma unat_of_nat_small:
  assumes "56 * n < (2 :: nat) ^ 31"
  shows "unat (of_nat n :: 32 word) = n"
proof -
  from assms have "n < 2 ^ 32" by simp
  then show ?thesis by (simp add: unat_of_nat)
qed

section \<open>One run of the loop body\<close>

text \<open>What is known when the body ends in the next iteration, in a \<^verbatim>\<open>break\<close>, or in
  \<^verbatim>\<open>fail_cleanup\<close>.\<close>

lemma loop_body_NextE:
  assumes "loop_body e len s = Next s'"
  obtains rc fm where
    "ioctl e (length (calls s)) (build_request (fiemap_start s) len) = (rc, fm)"
    "0 \<le> rc" "fm_mapped_extents fm \<noteq> 0" "fm_mapped_extents fm \<le> MAX_EXTENTS"
    "alloc_ok e (2 + length (calls s))
       (realloc_size (extents_size (result_extents s) (fm_mapped_extents fm)))"
    "32 + 56 * (unat (result_extents s) + unat (fm_mapped_extents fm)) \<le>
       unat (realloc_size (extents_size (result_extents s) (fm_mapped_extents fm)))"
    "fe_flags (last_mapped fm) AND FIEMAP_EXTENT_LAST = 0"
    "s' = \<lparr>result_extents = result_extents s + fm_mapped_extents fm,
           fiemap_start = extent_end (last_mapped fm),
           result_fm_extents = take (unat (result_extents s)) (result_fm_extents s) @ mapped_extents fm,
           calls = calls s @ [\<lparr>request = build_request (fiemap_start s) len, retval = rc, reply = fm\<rparr>]\<rparr>"
  using assms
  by (auto simp: loop_body_def Let_def sizeof_fiemap_def sizeof_fiemap_extent_def not_less
      split: prod.splits if_splits)

lemma loop_body_BreakE:
  assumes "loop_body e len s = Break s'"
  obtains (empty) rc fm where
    "ioctl e (length (calls s)) (build_request (fiemap_start s) len) = (rc, fm)"
    "0 \<le> rc" "fm_mapped_extents fm = 0"
    "s' = s\<lparr>calls := calls s @ [\<lparr>request = build_request (fiemap_start s) len, retval = rc, reply = fm\<rparr>]\<rparr>"
  | (last) rc fm where
    "ioctl e (length (calls s)) (build_request (fiemap_start s) len) = (rc, fm)"
    "0 \<le> rc" "fm_mapped_extents fm \<noteq> 0" "fm_mapped_extents fm \<le> MAX_EXTENTS"
    "alloc_ok e (2 + length (calls s))
       (realloc_size (extents_size (result_extents s) (fm_mapped_extents fm)))"
    "32 + 56 * (unat (result_extents s) + unat (fm_mapped_extents fm)) \<le>
       unat (realloc_size (extents_size (result_extents s) (fm_mapped_extents fm)))"
    "fe_flags (last_mapped fm) AND FIEMAP_EXTENT_LAST \<noteq> 0"
    "s' = \<lparr>result_extents = result_extents s + fm_mapped_extents fm,
           fiemap_start = extent_end (last_mapped fm),
           result_fm_extents = take (unat (result_extents s)) (result_fm_extents s) @ mapped_extents fm,
           calls = calls s @ [\<lparr>request = build_request (fiemap_start s) len, retval = rc, reply = fm\<rparr>]\<rparr>"
  using assms
  by (auto simp: loop_body_def Let_def sizeof_fiemap_def sizeof_fiemap_extent_def not_less
      split: prod.splits if_splits)

lemma loop_body_failE:
  assumes "loop_body e len s = Goto_fail_cleanup f s'"
  obtains rc fm where
    "ioctl e (length (calls s)) (build_request (fiemap_start s) len) = (rc, fm)"
    "calls s' = calls s @ [\<lparr>request = build_request (fiemap_start s) len, retval = rc, reply = fm\<rparr>]"
    "f = Ioctl_failed \<longleftrightarrow> rc < 0"
    "f = Out_of_memory \<Longrightarrow> 0 \<le> rc \<and> fm_mapped_extents fm \<noteq> 0 \<and> fm_mapped_extents fm \<le> MAX_EXTENTS \<and>
       \<not> alloc_ok e (2 + length (calls s))
         (realloc_size (extents_size (result_extents s) (fm_mapped_extents fm)))"
    "f = Undefined_behaviour \<Longrightarrow> 0 \<le> rc \<and> (MAX_EXTENTS < fm_mapped_extents fm \<or>
       realloc_size (extents_size (result_extents s) (fm_mapped_extents fm)) = 0 \<or>
       (alloc_ok e (2 + length (calls s))
         (realloc_size (extents_size (result_extents s) (fm_mapped_extents fm))) \<and>
        unat (realloc_size (extents_size (result_extents s) (fm_mapped_extents fm))) <
         32 + 56 * (unat (result_extents s) + unat (fm_mapped_extents fm))))"
    "f \<noteq> Cannot_determine_file_size"
  using assms
  by (auto simp: loop_body_def Let_def sizeof_fiemap_def sizeof_fiemap_extent_def not_less
      split: prod.splits if_splits)

text \<open>And the other way round: what the body does on a given answer.\<close>

lemma loop_body_append:
  assumes "ioctl e (length (calls s)) (build_request (fiemap_start s) len) = (rc, fm)"
    and "0 \<le> rc" and "fm_mapped_extents fm \<noteq> 0" and "fm_mapped_extents fm \<le> MAX_EXTENTS"
    and "realloc_size (extents_size (result_extents s) (fm_mapped_extents fm)) \<noteq> 0"
    and "alloc_ok e (2 + length (calls s))
       (realloc_size (extents_size (result_extents s) (fm_mapped_extents fm)))"
    and "32 + 56 * (unat (result_extents s) + unat (fm_mapped_extents fm)) \<le>
       unat (realloc_size (extents_size (result_extents s) (fm_mapped_extents fm)))"
  shows "loop_body e len s =
    (if flagged_last fm then Break else Next)
      \<lparr>result_extents = result_extents s + fm_mapped_extents fm,
       fiemap_start = extent_end (last_mapped fm),
       result_fm_extents = take (unat (result_extents s)) (result_fm_extents s) @ mapped_extents fm,
       calls = calls s @ [\<lparr>request = build_request (fiemap_start s) len, retval = rc, reply = fm\<rparr>]\<rparr>"
  using assms
  by (simp add: loop_body_def Let_def sizeof_fiemap_def sizeof_fiemap_extent_def not_less
      flagged_last_def)

lemma loop_body_empty:
  assumes "ioctl e (length (calls s)) (build_request (fiemap_start s) len) = (rc, fm)"
    and "0 \<le> rc" and "fm_mapped_extents fm = 0"
  shows "loop_body e len s =
    Break (s\<lparr>calls := calls s @ [\<lparr>request = build_request (fiemap_start s) len, retval = rc, reply = fm\<rparr>]\<rparr>)"
  using assms by (simp add: loop_body_def Let_def)

lemma loop_body_ioctl_failed:
  assumes "ioctl e (length (calls s)) (build_request (fiemap_start s) len) = (rc, fm)"
    and "rc < 0"
  shows "loop_body e len s =
    Goto_fail_cleanup Ioctl_failed
      (s\<lparr>calls := calls s @ [\<lparr>request = build_request (fiemap_start s) len, retval = rc, reply = fm\<rparr>]\<rparr>)"
  using assms by (simp add: loop_body_def Let_def)

lemma fail_cleanup_both:
  "fail_cleanup f {Chunk_buffer, Result_buffer} cs = \<lparr>returned = Inl f, issued = cs, live = {}\<rparr>"
  by (auto simp: fail_cleanup_def)

section \<open>The loop invariant\<close>

lemma mapped_extents_length [simp]: "length (mapped_extents fm) = unat (fm_mapped_extents fm)"
  by (simp add: mapped_extents_def)

lemma mapped_extents_empty [simp]: "fm_mapped_extents fm = 0 \<Longrightarrow> mapped_extents fm = []"
  by (simp add: mapped_extents_def)

lemma mapped_total_simps [simp]:
  "mapped_total [] = 0"
  "mapped_total (cs @ [c]) = mapped_total cs + unat (fm_mapped_extents (reply c))"
  by (simp_all add: mapped_total_def)

lemma all_mapped_simps [simp]:
  "all_mapped [] = []"
  "all_mapped (cs @ [c]) = all_mapped cs @ mapped_extents (reply c)"
  by (simp_all add: all_mapped_def)

lemma length_all_mapped [simp]: "length (all_mapped cs) = mapped_total cs"
  by (simp add: all_mapped_def mapped_total_def length_concat comp_def)

text \<open>Lines 150-155 in a consistent state: the chunk goes behind what is there.\<close>

lemma append_consistent:
  assumes "consistent s" and "fm_mapped_extents fm \<le> MAX_EXTENTS"
    and "32 + 56 * (unat (result_extents s) + unat (fm_mapped_extents fm)) \<le>
       unat (realloc_size (extents_size (result_extents s) (fm_mapped_extents fm)))"
    and "s' = \<lparr>result_extents = result_extents s + fm_mapped_extents fm,
           fiemap_start = x,
           result_fm_extents = take (unat (result_extents s)) (result_fm_extents s) @ mapped_extents fm,
           calls = calls s @ [\<lparr>request = b, retval = rc, reply = fm\<rparr>]\<rparr>"
  shows "consistent s'" and "result_fm_extents s' = result_fm_extents s @ mapped_extents fm"
proof -
  from assms(1) have ex: "result_fm_extents s = all_mapped (calls s)"
    and cnt: "unat (result_extents s) = mapped_total (calls s)"
    by (simp_all add: consistent_def)
  from ex cnt have full: "take (unat (result_extents s)) (result_fm_extents s) = result_fm_extents s"
    by simp
  from assms(2,3) have sum: "unat (result_extents s + fm_mapped_extents fm) =
      unat (result_extents s) + unat (fm_mapped_extents fm)"
    by (rule unat_sum_no_wrap)
  show "result_fm_extents s' = result_fm_extents s @ mapped_extents fm"
    unfolding assms(4) full by simp
  show "consistent s'"
    unfolding assms(4) full consistent_def by (simp add: sum ex cnt)
qed

lemma consistent_Next:
  assumes "consistent s" and "loop_body e len s = Next s'"
  shows "consistent s'"
  using assms(2)
proof (rule loop_body_NextE)
  fix rc fm
  assume "fm_mapped_extents fm \<le> MAX_EXTENTS"
    and "32 + 56 * (unat (result_extents s) + unat (fm_mapped_extents fm)) \<le>
       unat (realloc_size (extents_size (result_extents s) (fm_mapped_extents fm)))"
    and "s' = \<lparr>result_extents = result_extents s + fm_mapped_extents fm,
           fiemap_start = extent_end (last_mapped fm),
           result_fm_extents = take (unat (result_extents s)) (result_fm_extents s) @ mapped_extents fm,
           calls = calls s @ [\<lparr>request = build_request (fiemap_start s) len, retval = rc, reply = fm\<rparr>]\<rparr>"
  with assms(1) show ?thesis by (rule append_consistent(1))
qed

lemma consistent_Break:
  assumes "consistent s" and "loop_body e len s = Break s'"
  shows "consistent s'"
  using assms(2)
proof (cases rule: loop_body_BreakE)
  case (empty rc fm)
  with assms(1) show ?thesis by (simp add: consistent_def)
next
  case (last rc fm)
  from assms(1) last(4,6,8) show ?thesis by (rule append_consistent(1))
qed

lemma consistent_initial: "consistent initial_state"
  by (simp add: consistent_def initial_state_def)

lemma reachable_consistent: "reachable e len s \<Longrightarrow> consistent s"
  by (induction rule: reachable.induct) (auto intro: consistent_initial consistent_Next)

lemma Break_or_Next_appends:
  assumes "consistent s"
    and "loop_body e len s = Next s' \<or> loop_body e len s = Break s'"
  shows "result_fm_extents s' = result_fm_extents s @ mapped_extents (reply (last (calls s')))"
  using assms(2)
proof
  assume "loop_body e len s = Next s'"
  then show ?thesis
  proof (rule loop_body_NextE)
    fix rc fm
    assume cap: "fm_mapped_extents fm \<le> MAX_EXTENTS"
      and fits: "32 + 56 * (unat (result_extents s) + unat (fm_mapped_extents fm)) \<le>
         unat (realloc_size (extents_size (result_extents s) (fm_mapped_extents fm)))"
      and s': "s' = \<lparr>result_extents = result_extents s + fm_mapped_extents fm,
           fiemap_start = extent_end (last_mapped fm),
           result_fm_extents = take (unat (result_extents s)) (result_fm_extents s) @ mapped_extents fm,
           calls = calls s @ [\<lparr>request = build_request (fiemap_start s) len, retval = rc, reply = fm\<rparr>]\<rparr>"
    from append_consistent(2) [OF assms(1) cap fits s'] show ?thesis
      by (simp add: s')
  qed
next
  assume "loop_body e len s = Break s'"
  then show ?thesis
  proof (cases rule: loop_body_BreakE)
    case (empty rc fm)
    then show ?thesis by simp
  next
    case (last rc fm)
    from append_consistent(2) [OF assms(1) last(4,6,8)] show ?thesis
      by (simp add: last(8))
  qed
qed

section \<open>Runs of the loop\<close>

lemma read_loop_reachable:
  "reachable e len s \<Longrightarrow> read_loop e len s = read_loop e len initial_state"
proof (induction rule: reachable.induct)
  case start
  show ?case ..
next
  case (iterate s s')
  have "read_loop e len s = read_loop e len s'"
    using iterate.hyps(2,3) by (subst read_loop.simps) simp
  with iterate.IH show ?case by simp
qed

text \<open>A run that returns left the loop from some state at the loop condition.\<close>

lemma read_loop_exit:
  assumes "read_loop e len s = Some out" and "reachable e len s"
  shows "\<exists>s'. reachable e len s' \<and>
           (if fiemap_start s' < len then
              (case loop_body e len s' of
                 Next s'' \<Rightarrow> False
               | Break s'' \<Rightarrow> out = finish s''
               | Goto_fail_cleanup f s'' \<Rightarrow>
                   out = fail_cleanup f {Chunk_buffer, Result_buffer} (calls s''))
            else out = finish s')"
    (is "?exit e len out")
proof -
  have "reachable e len s \<longrightarrow> ?exit e len out"
  proof (rule read_loop.raw_induct [where P = "\<lambda>e len s out. reachable e len s \<longrightarrow> ?exit e len out"])
    show "read_loop e len s = Some out" by (fact assms(1))
  next
    fix loop e len s out
    assume IH: "\<And>e len s out. loop e len s = Some out \<Longrightarrow> reachable e len s \<longrightarrow> ?exit e len out"
      and body: "(if fiemap_start s < len
          then case loop_body e len s of
               Next s' \<Rightarrow> loop e len s'
             | Break s' \<Rightarrow> Some (finish s')
             | Goto_fail_cleanup f s' \<Rightarrow>
                 Some (fail_cleanup f {Chunk_buffer, Result_buffer} (calls s'))
          else Some (finish s)) = Some out"
    show "reachable e len s \<longrightarrow> ?exit e len out"
    proof
      assume r: "reachable e len s"
      show "?exit e len out"
      proof (cases "fiemap_start s < len")
        case False
        with body r show ?thesis by (intro exI [of _ s]) simp
      next
        case True
        show ?thesis
        proof (cases "loop_body e len s")
          case (Next s2)
          with True body have "loop e len s2 = Some out" by simp
          moreover from r True Next have "reachable e len s2"
            by (rule reachable.iterate)
          ultimately show ?thesis using IH by blast
        next
          case (Break s2)
          with True body r show ?thesis by (intro exI [of _ s]) simp
        next
          case (Goto_fail_cleanup f s2)
          with True body r show ?thesis by (intro exI [of _ s]) simp
        qed
      qed
    qed
  qed
  with assms(2) show ?thesis by simp
qed

text \<open>The same, as a case distinction for runs from the initial state.\<close>

lemma read_loop_cases:
  assumes "read_loop e len initial_state = Some out"
  obtains (finished) s where "reachable e len s" "\<not> fiemap_start s < len" "out = finish s"
  | (broke) s s' where "reachable e len s" "fiemap_start s < len"
      "loop_body e len s = Break s'" "out = finish s'"
  | (failed) s f s' where "reachable e len s" "fiemap_start s < len"
      "loop_body e len s = Goto_fail_cleanup f s'"
      "out = fail_cleanup f {Chunk_buffer, Result_buffer} (calls s')"
proof -
  from read_loop_exit [OF assms reachable.start]
  obtain s where r: "reachable e len s"
    and x: "if fiemap_start s < len then
              (case loop_body e len s of
                 Next s'' \<Rightarrow> False
               | Break s'' \<Rightarrow> out = finish s''
               | Goto_fail_cleanup f s'' \<Rightarrow>
                   out = fail_cleanup f {Chunk_buffer, Result_buffer} (calls s''))
            else out = finish s"
    by blast
  show ?thesis
  proof (cases "fiemap_start s < len")
    case False
    with r x show ?thesis by (intro finished [of s]) simp_all
  next
    case True
    with r x show ?thesis
      by (cases "loop_body e len s") (auto intro: broke [of s] failed [of s])
  qed
qed

lemma finished_consistent:
  assumes "read_loop e len initial_state = Some out" and "returned out = Inr r"
  shows "\<exists>s. consistent s \<and> out = finish s"
  using assms(1)
proof (cases rule: read_loop_cases)
  case (finished s)
  then show ?thesis by (auto dest: reachable_consistent)
next
  case (broke s s')
  then show ?thesis by (auto dest: reachable_consistent consistent_Break)
next
  case (failed s f s')
  with assms(2) show ?thesis by (simp add: fail_cleanup_def)
qed

lemma read_fiemap_loop:
  assumes "fstat e = Some len"
    and "alloc_ok e 0 (sizeof_fiemap + SIZE_OF_EXTENTS)" and "alloc_ok e 1 sizeof_fiemap"
  shows "read_fiemap e = read_loop e len initial_state"
  using assms by (simp add: read_fiemap_def)

lemma read_fiemap_result:
  assumes "read_fiemap e = Some out" and "returned out = Inr r"
  shows "\<exists>s. consistent s \<and> out = finish s"
proof (cases "fstat e")
  case None
  with assms show ?thesis by (auto simp: read_fiemap_def)
next
  case (Some len)
  show ?thesis
  proof (cases "alloc_ok e 0 (sizeof_fiemap + SIZE_OF_EXTENTS) \<and> alloc_ok e 1 sizeof_fiemap")
    case True
    with Some assms(1) have "read_loop e len initial_state = Some out"
      by (simp add: read_fiemap_def)
    then show ?thesis using assms(2) by (rule finished_consistent)
  next
    case False
    with Some assms show ?thesis
      by (auto simp: read_fiemap_def fail_cleanup_def split: if_splits)
  qed
qed

section \<open>Bounds from the allocator\<close>

lemma step_small:
  assumes "sane_allocator e"
    and "alloc_ok e k (realloc_size (extents_size n m))"
    and "32 + 56 * (unat n + unat m) \<le> unat (realloc_size (extents_size n m))"
  shows "56 * (unat n + unat m) < 2 ^ 31"
proof -
  from assms(1,2) have "unat (realloc_size (extents_size n m)) \<le> PTRDIFF_MAX"
    by (simp add: sane_allocator_def)
  then show ?thesis using assms(3) by (rule realloc_size_sound)
qed

text \<open>With an allocator that refuses what no machine has, the result stays below 2 GiB.\<close>

lemma Next_small:
  assumes "sane_allocator e" and "loop_body e len s = Next s'"
  shows "56 * unat (result_extents s') < 2 ^ 31" and "unat (result_extents s) < unat (result_extents s')"
proof -
  from assms(2) have "56 * unat (result_extents s') < 2 ^ 31 \<and>
      unat (result_extents s) < unat (result_extents s')"
  proof (rule loop_body_NextE)
    fix rc fm
    assume nz: "fm_mapped_extents fm \<noteq> 0" and cap: "fm_mapped_extents fm \<le> MAX_EXTENTS"
      and alloc: "alloc_ok e (2 + length (calls s))
        (realloc_size (extents_size (result_extents s) (fm_mapped_extents fm)))"
      and fits: "32 + 56 * (unat (result_extents s) + unat (fm_mapped_extents fm)) \<le>
        unat (realloc_size (extents_size (result_extents s) (fm_mapped_extents fm)))"
      and s': "s' = \<lparr>result_extents = result_extents s + fm_mapped_extents fm,
           fiemap_start = extent_end (last_mapped fm),
           result_fm_extents = take (unat (result_extents s)) (result_fm_extents s) @ mapped_extents fm,
           calls = calls s @ [\<lparr>request = build_request (fiemap_start s) len, retval = rc, reply = fm\<rparr>]\<rparr>"
    from assms(1) alloc fits
    have small: "56 * (unat (result_extents s) + unat (fm_mapped_extents fm)) < 2 ^ 31"
      by (rule step_small)
    from cap fits have sum: "unat (result_extents s + fm_mapped_extents fm) =
        unat (result_extents s) + unat (fm_mapped_extents fm)"
      by (rule unat_sum_no_wrap)
    from nz have "0 < unat (fm_mapped_extents fm)" by (simp add: unat_gt_0)
    with small sum show ?thesis unfolding s' by simp
  qed
  then show "56 * unat (result_extents s') < 2 ^ 31"
    and "unat (result_extents s) < unat (result_extents s')" by simp_all
qed

lemma reachable_small:
  assumes "sane_allocator e" and "reachable e len s"
  shows "56 * unat (result_extents s) < 2 ^ 31"
  using assms(2)
proof (induction rule: reachable.induct)
  case start
  show ?case by (simp add: initial_state_def)
next
  case (iterate s s')
  from assms(1) iterate.hyps(3) show ?case by (rule Next_small(1))
qed

text \<open>A granted request, with a kernel that keeps to the capacity: the chunk is appended.\<close>

lemma loop_body_granted:
  assumes sane: "sane_allocator e" and r: "reachable e len s"
    and io: "ioctl e (length (calls s)) (build_request (fiemap_start s) len) = (rc, fm)"
    and rc: "0 \<le> rc" and nz: "fm_mapped_extents fm \<noteq> 0" and cap: "fm_mapped_extents fm \<le> MAX_EXTENTS"
    and alloc: "alloc_ok e (2 + length (calls s))
       (realloc_size (extents_size (result_extents s) (fm_mapped_extents fm)))"
  shows "loop_body e len s =
    (if flagged_last fm then Break else Next)
      \<lparr>result_extents = result_extents s + fm_mapped_extents fm,
       fiemap_start = extent_end (last_mapped fm),
       result_fm_extents = result_fm_extents s @ mapped_extents fm,
       calls = calls s @ [\<lparr>request = build_request (fiemap_start s) len, retval = rc, reply = fm\<rparr>]\<rparr>"
proof -
  let ?size = "realloc_size (extents_size (result_extents s) (fm_mapped_extents fm))"
  from sane r have small: "56 * unat (result_extents s) < 2 ^ 31"
    by (rule reachable_small)
  from cap have m: "unat (fm_mapped_extents fm) \<le> 1024"
    by (simp add: MAX_EXTENTS_def word_le_nat_alt)
  from sane alloc have "unat ?size \<le> PTRDIFF_MAX"
    by (simp add: sane_allocator_def)
  with small m have fits: "32 + 56 * (unat (result_extents s) + unat (fm_mapped_extents fm)) \<le> unat ?size"
    by (rule realloc_size_next(2))
  from small m have nonzero: "?size \<noteq> 0"
    by (rule realloc_size_next(1))
  from r have "consistent s" by (rule reachable_consistent)
  then have "take (unat (result_extents s)) (result_fm_extents s) = result_fm_extents s"
    by (simp add: consistent_def)
  with loop_body_append [OF io rc nz cap nonzero alloc fits] show ?thesis
    by simp
qed

text \<open>With such an allocator and a kernel that keeps to the capacity, the loop body
  stays within the two blocks.\<close>

lemma loop_body_defined:
  assumes sane: "sane_allocator e" and hon: "honours_capacity e"
    and r: "reachable e len s"
  shows "loop_body e len s \<noteq> Goto_fail_cleanup Undefined_behaviour s'"
proof
  assume "loop_body e len s = Goto_fail_cleanup Undefined_behaviour s'"
  then show False
  proof (rule loop_body_failE)
    fix rc and fm :: fiemap
    let ?size = "realloc_size (extents_size (result_extents s) (fm_mapped_extents fm))"
    assume io: "ioctl e (length (calls s)) (build_request (fiemap_start s) len) = (rc, fm)"
      and ub: "Undefined_behaviour = Undefined_behaviour \<Longrightarrow> 0 \<le> rc \<and> (MAX_EXTENTS < fm_mapped_extents fm \<or>
       ?size = 0 \<or>
       (alloc_ok e (2 + length (calls s)) ?size \<and>
        unat ?size < 32 + 56 * (unat (result_extents s) + unat (fm_mapped_extents fm))))"
    from ub have rc: "0 \<le> rc" and disj: "MAX_EXTENTS < fm_mapped_extents fm \<or> ?size = 0 \<or>
       (alloc_ok e (2 + length (calls s)) ?size \<and>
        unat ?size < 32 + 56 * (unat (result_extents s) + unat (fm_mapped_extents fm)))"
      by simp_all
    let ?b = "build_request (fiemap_start s) len"
    from hon have "0 \<le> fst (ioctl e (length (calls s)) ?b) \<longrightarrow>
        fm_mapped_extents (snd (ioctl e (length (calls s)) ?b)) \<le> fm_extent_count ?b"
      unfolding honours_capacity_def by blast
    with io rc have cap: "fm_mapped_extents fm \<le> MAX_EXTENTS"
      by (simp add: build_request_def)
    then have m: "unat (fm_mapped_extents fm) \<le> 1024"
      by (simp add: MAX_EXTENTS_def word_le_nat_alt)
    from sane r have small: "56 * unat (result_extents s) < 2 ^ 31"
      by (rule reachable_small)
    from small m have nonzero: "?size \<noteq> 0"
      by (rule realloc_size_next(1))
    from disj cap nonzero have alloc: "alloc_ok e (2 + length (calls s)) ?size"
      and less: "unat ?size < 32 + 56 * (unat (result_extents s) + unat (fm_mapped_extents fm))"
      by auto
    from sane alloc have "unat ?size \<le> PTRDIFF_MAX"
      by (simp add: sane_allocator_def)
    with small m have "32 + 56 * (unat (result_extents s) + unat (fm_mapped_extents fm)) \<le> unat ?size"
      by (rule realloc_size_next(2))
    with less show False by simp
  qed
qed

text \<open>Each iteration that continues adds an extent, so the loop ends.\<close>

lemma read_loop_terminates:
  assumes "sane_allocator e" and "56 * unat (result_extents s) < 2 ^ 31"
  shows "\<exists>out. read_loop e len s = Some out"
  using assms(2)
proof (induction "2 ^ 31 - 56 * unat (result_extents s)" arbitrary: s rule: less_induct)
  case less
  show ?case
  proof (cases "fiemap_start s < len")
    case False
    then show ?thesis by (subst read_loop.simps) simp
  next
    case True
    show ?thesis
    proof (cases "loop_body e len s")
      case (Break s2)
      with True show ?thesis by (subst read_loop.simps) simp
    next
      case (Goto_fail_cleanup f s2)
      with True show ?thesis by (subst read_loop.simps) simp
    next
      case (Next s')
      with assms(1) have small: "56 * unat (result_extents s') < 2 ^ 31"
        and more: "unat (result_extents s) < unat (result_extents s')"
        by (rule Next_small)+
      from small more
      have "2 ^ 31 - 56 * unat (result_extents s') < 2 ^ 31 - 56 * unat (result_extents s)"
        by simp
      then have "\<exists>out. read_loop e len s' = Some out"
        using small by (rule less.hyps)
      with True Next show ?thesis by (subst read_loop.simps) simp
    qed
  qed
qed

lemma read_fiemap_returns:
  assumes "sane_allocator e" and "honours_capacity e"
  shows "\<exists>out. read_fiemap e = Some out \<and> returned out \<noteq> Inl Undefined_behaviour"
proof (cases "fstat e")
  case None
  then show ?thesis by (simp add: read_fiemap_def)
next
  case (Some len)
  show ?thesis
  proof (cases "alloc_ok e 0 (sizeof_fiemap + SIZE_OF_EXTENTS) \<and> alloc_ok e 1 sizeof_fiemap")
    case False
    with Some show ?thesis by (auto simp: read_fiemap_def fail_cleanup_def)
  next
    case True
    with Some have eq: "read_fiemap e = read_loop e len initial_state"
      by (simp add: read_fiemap_def)
    have "\<exists>out. read_loop e len initial_state = Some out"
      using assms(1) by (rule read_loop_terminates) (simp add: initial_state_def)
    then obtain out where out: "read_loop e len initial_state = Some out" ..
    then have "returned out \<noteq> Inl Undefined_behaviour"
    proof (cases rule: read_loop_cases)
      case (finished s)
      then show ?thesis by (simp add: finish_def)
    next
      case (broke s s')
      then show ?thesis by (simp add: finish_def)
    next
      case (failed s f s')
      with loop_body_defined [OF assms failed(1)] show ?thesis
        by (auto simp: fail_cleanup_def)
    qed
    with eq out show ?thesis by simp
  qed
qed

section \<open>The calls of a run\<close>

lemma length_queries [simp]: "length (queries e len n) = n"
  by (induction n) simp_all

lemma queries_nth: "k < n \<Longrightarrow> queries e len n ! k = next_call e len (queries e len k)"
proof (induction n)
  case 0
  then show ?case by simp
next
  case (Suc n)
  then show ?case by (cases "k = n") (simp_all add: nth_append)
qed

lemma mapped_total_queries_mono:
  "k \<le> n \<Longrightarrow> mapped_total (queries e len k) \<le> mapped_total (queries e len n)"
proof (induction n)
  case 0
  then show ?case by simp
next
  case (Suc n)
  then show ?case by (cases "k = Suc n") (simp_all add: le_Suc_eq trans_le_add1)
qed

lemma next_call_ioctl:
  "ioctl e (length cs) (build_request (chunk_cursor cs) len) =
     (retval (next_call e len cs), reply (next_call e len cs))"
  by (simp add: next_call_def Let_def split: prod.splits)

lemma next_call_request [simp]:
  "request (next_call e len cs) = build_request (chunk_cursor cs) len"
  by (simp add: next_call_def Let_def split: prod.splits)

text \<open>One appended chunk, from the state after \<open>k\<close> calls.\<close>

lemma state_after_step:
  assumes cap: "fm_mapped_extents (reply (next_call e len (queries e len k))) \<le> MAX_EXTENTS"
    and nz: "fm_mapped_extents (reply (next_call e len (queries e len k))) \<noteq> 0"
    and rc: "0 \<le> retval (next_call e len (queries e len k))"
    and alloc: "alloc_ok e (2 + k) (of_nat (32 + 56 * mapped_total (queries e len (Suc k))))"
    and small: "56 * mapped_total (queries e len (Suc k)) < 2 ^ 31"
  shows "loop_body e len (state_after e len k) =
    (if flagged_last (reply (next_call e len (queries e len k))) then Break else Next)
      (state_after e len (Suc k))"
proof -
  let ?cs = "queries e len k"
  let ?c = "next_call e len ?cs"
  let ?s = "state_after e len k"
  let ?m = "fm_mapped_extents (reply ?c)"
  have tot: "mapped_total (queries e len (Suc k)) = mapped_total ?cs + unat ?m"
    by simp
  from small have small_k: "56 * mapped_total ?cs < 2 ^ 31"
    by (simp add: tot)
  have re: "unat (result_extents ?s) = mapped_total ?cs"
    unfolding state_after_def using small_k by (simp add: unat_of_nat_small)
  from small have small': "56 * (unat (result_extents ?s) + unat ?m) < 2 ^ 31"
    by (simp add: tot re)
  then have size: "unat (realloc_size (extents_size (result_extents ?s) ?m)) =
      32 + 56 * (unat (result_extents ?s) + unat ?m)"
    by (rule realloc_size_exact)
  then have "(of_nat (unat (realloc_size (extents_size (result_extents ?s) ?m))) :: 64 word) =
      of_nat (32 + 56 * mapped_total (queries e len (Suc k)))"
    by (simp only: re tot)
  then have "realloc_size (extents_size (result_extents ?s) ?m) =
      of_nat (32 + 56 * mapped_total (queries e len (Suc k)))"
    by simp
  with alloc have alloc': "alloc_ok e (2 + length (calls ?s))
      (realloc_size (extents_size (result_extents ?s) ?m))"
    by (simp add: state_after_def)
  from size have nonzero: "realloc_size (extents_size (result_extents ?s) ?m) \<noteq> 0"
    by (metis add_is_0 unat_0 zero_neq_numeral)
  have io: "ioctl e (length (calls ?s)) (build_request (fiemap_start ?s) len) = (retval ?c, reply ?c)"
    using next_call_ioctl [of e ?cs len] by (simp add: state_after_def)
  have sum: "result_extents ?s + ?m = of_nat (mapped_total (queries e len (Suc k)))"
    by (simp add: state_after_def)
  have call: "\<lparr>request = build_request (fiemap_start ?s) len, retval = retval ?c, reply = reply ?c\<rparr> = ?c"
    by (simp add: state_after_def)
  have nxt: "\<lparr>result_extents = result_extents ?s + ?m,
       fiemap_start = extent_end (last_mapped (reply ?c)),
       result_fm_extents = take (unat (result_extents ?s)) (result_fm_extents ?s) @ mapped_extents (reply ?c),
       calls = calls ?s @ [\<lparr>request = build_request (fiemap_start ?s) len, retval = retval ?c, reply = reply ?c\<rparr>]\<rparr>
     = state_after e len (Suc k)"
    unfolding call sum re
    by (simp add: state_after_def chunk_cursor_def)
  show ?thesis
    using loop_body_append [OF io rc nz cap nonzero alloc']
    unfolding nxt using size by simp
qed

lemma state_after_0: "state_after e len 0 = initial_state"
  by (simp add: state_after_def initial_state_def chunk_cursor_def)

lemma cursor_state_after_Suc:
  "fiemap_start (state_after e len (Suc k)) =
     extent_end (last_mapped (reply (next_call e len (queries e len k))))"
  by (simp add: state_after_def chunk_cursor_def)

lemma finish_state_after:
  "finish (state_after e len n) =
     \<lparr>returned = Inr \<lparr>res_mapped_extents = of_nat (mapped_total (queries e len n)),
                       res_extents = all_mapped (queries e len n)\<rparr>,
      issued = queries e len n, live = {Result_buffer}\<rparr>"
  by (simp add: finish_def state_after_def)

text \<open>As long as the calls continue, the loop passes through these states.\<close>

lemma run_reaches:
  assumes pos: "0 < len"
    and cont: "\<forall>j<n. continues len (next_call e len (queries e len j))"
    and cap: "\<forall>j<n. fm_mapped_extents (reply (next_call e len (queries e len j))) \<le> MAX_EXTENTS"
    and alloc: "\<forall>j<n. alloc_ok e (2 + j) (of_nat (32 + 56 * mapped_total (queries e len (Suc j))))"
    and small: "56 * mapped_total (queries e len n) < 2 ^ 31"
  shows "k \<le> n \<Longrightarrow>
    reachable e len (state_after e len k) \<and> fiemap_start (state_after e len k) < len"
proof (induction k)
  case 0
  from pos show ?case
    by (simp add: state_after_0 reachable.start) (simp add: initial_state_def)
next
  case (Suc k)
  then have k: "k < n" and r: "reachable e len (state_after e len k)"
    and c: "fiemap_start (state_after e len k) < len"
    by simp_all
  let ?c = "next_call e len (queries e len k)"
  from cont k have "continues len ?c" by simp
  then have rc: "0 \<le> retval ?c" and nz: "fm_mapped_extents (reply ?c) \<noteq> 0"
    and nl: "\<not> flagged_last (reply ?c)" and lt: "extent_end (last_mapped (reply ?c)) < len"
    by (simp_all add: continues_def)
  from k have "mapped_total (queries e len (Suc k)) \<le> mapped_total (queries e len n)"
    by (intro mapped_total_queries_mono) simp
  with small have small_k: "56 * mapped_total (queries e len (Suc k)) < 2 ^ 31"
    by simp
  from cap k have capk: "fm_mapped_extents (reply ?c) \<le> MAX_EXTENTS" by simp
  from alloc k have allock: "alloc_ok e (2 + k) (of_nat (32 + 56 * mapped_total (queries e len (Suc k))))"
    by simp
  have "loop_body e len (state_after e len k) = Next (state_after e len (Suc k))"
    using state_after_step [OF capk nz rc allock small_k] nl by simp
  with r c have "reachable e len (state_after e len (Suc k))"
    by (rule reachable.iterate)
  with lt show ?case by (simp add: cursor_state_after_Suc)
qed

lemma reachable_state_after:
  assumes "0 < len"
    and "list_all (continues len) (queries e len n)"
    and "list_all (\<lambda>c. fm_mapped_extents (reply c) \<le> MAX_EXTENTS) (queries e len n)"
    and "\<forall>k<n. alloc_ok e (2 + k) (of_nat (32 + 56 * mapped_total (queries e len (Suc k))))"
    and "56 * mapped_total (queries e len n) < 2 ^ 31"
  shows "reachable e len (state_after e len n)" and "fiemap_start (state_after e len n) < len"
proof -
  have cont: "\<forall>j<n. continues len (next_call e len (queries e len j))"
    using assms(2) by (simp add: list_all_length queries_nth)
  have cap: "\<forall>j<n. fm_mapped_extents (reply (next_call e len (queries e len j))) \<le> MAX_EXTENTS"
    using assms(3) by (simp add: list_all_length queries_nth)
  have "reachable e len (state_after e len n) \<and> fiemap_start (state_after e len n) < len"
    by (rule run_reaches [OF assms(1) cont cap assms(4,5)]) simp
  then show "reachable e len (state_after e len n)"
    and "fiemap_start (state_after e len n) < len" by simp_all
qed

text \<open>The run of \<^verbatim>\<open>read_fiemap\<close> whose first \<open>n\<close> calls continue and whose next call stops.\<close>

lemma read_fiemap_run:
  assumes stat: "fstat e = Some len" and pos: "0 < len"
    and m0: "alloc_ok e 0 (sizeof_fiemap + SIZE_OF_EXTENTS)" and m1: "alloc_ok e 1 sizeof_fiemap"
    and cont: "list_all (continues len) (queries e len n)"
    and stop: "stops len (next_call e len (queries e len n))"
    and cap: "list_all (\<lambda>c. fm_mapped_extents (reply c) \<le> MAX_EXTENTS) (queries e len (Suc n))"
    and alloc: "\<forall>k\<le>n. alloc_ok e (2 + k) (of_nat (32 + 56 * mapped_total (queries e len (Suc k))))"
    and small: "56 * mapped_total (queries e len (Suc n)) < 2 ^ 31"
  shows "read_fiemap e =
    Some \<lparr>returned = Inr \<lparr>res_mapped_extents = of_nat (mapped_total (queries e len (Suc n))),
                            res_extents = all_mapped (queries e len (Suc n))\<rparr>,
          issued = queries e len (Suc n), live = {Result_buffer}\<rparr>"
proof -
  let ?s = "state_after e len n"
  let ?c = "next_call e len (queries e len n)"
  have cont': "\<forall>j<n. continues len (next_call e len (queries e len j))"
    using cont by (simp add: list_all_length queries_nth)
  have cap': "\<forall>j<Suc n. fm_mapped_extents (reply (next_call e len (queries e len j))) \<le> MAX_EXTENTS"
    using cap unfolding list_all_length length_queries
    by (metis queries_nth)
  have small_n: "56 * mapped_total (queries e len n) < 2 ^ 31"
    using small by simp
  have "reachable e len ?s \<and> fiemap_start ?s < len"
    by (rule run_reaches [OF pos cont' _ _ small_n]) (use cap' alloc in simp_all)
  then have r: "reachable e len ?s" and c: "fiemap_start ?s < len" by simp_all
  from stop have rc: "0 \<le> retval ?c" by (simp add: stops_def)
  have "read_loop e len ?s = Some (finish (state_after e len (Suc n)))"
  proof (cases "fm_mapped_extents (reply ?c) = 0")
    case True
    have io: "ioctl e (length (calls ?s)) (build_request (fiemap_start ?s) len) = (retval ?c, reply ?c)"
      using next_call_ioctl [of e "queries e len n" len] by (simp add: state_after_def)
    have "finish (?s\<lparr>calls := calls ?s @ [\<lparr>request = build_request (fiemap_start ?s) len,
        retval = retval ?c, reply = reply ?c\<rparr>]\<rparr>) = finish (state_after e len (Suc n))"
      using True by (simp add: finish_def state_after_def mapped_extents_def)
    with loop_body_empty [OF io rc True]
    have "\<exists>s'. loop_body e len ?s = Break s' \<and> finish s' = finish (state_after e len (Suc n))"
      by simp
    then obtain s' where "loop_body e len ?s = Break s'"
      and "finish s' = finish (state_after e len (Suc n))" by blast
    with c show ?thesis by (subst read_loop.simps) simp
  next
    case False
    from cap' have capn: "fm_mapped_extents (reply ?c) \<le> MAX_EXTENTS" by simp
    from alloc have allocn: "alloc_ok e (2 + n) (of_nat (32 + 56 * mapped_total (queries e len (Suc n))))"
      by simp
    note step = state_after_step [OF capn False rc allocn small]
    show ?thesis
    proof (cases "flagged_last (reply ?c)")
      case True
      with step c show ?thesis by (subst read_loop.simps) simp
    next
      case nl: False
      with stop False have "\<not> fiemap_start (state_after e len (Suc n)) < len"
        by (simp add: stops_def cursor_state_after_Suc not_less)
      then have "read_loop e len (state_after e len (Suc n)) =
          Some (finish (state_after e len (Suc n)))"
        by (subst read_loop.simps) simp
      with step nl c show ?thesis by (subst read_loop.simps) simp
    qed
  qed
  with read_loop_reachable [OF r] read_fiemap_loop [OF stat m0 m1]
  show ?thesis by (simp only: finish_state_after)
qed

lemma loop_body_calls:
  assumes "loop_body e len s = Next s' \<or> loop_body e len s = Break s' \<or>
    loop_body e len s = Goto_fail_cleanup f s'"
    and "fiemap_start s = chunk_cursor (calls s)"
  shows "calls s' = calls s @ [next_call e len (calls s)]"
proof -
  have "\<exists>rc fm. ioctl e (length (calls s)) (build_request (fiemap_start s) len) = (rc, fm) \<and>
      calls s' = calls s @ [\<lparr>request = build_request (fiemap_start s) len, retval = rc, reply = fm\<rparr>]"
    using assms(1)
    by (auto elim!: loop_body_NextE loop_body_BreakE loop_body_failE)
  then show ?thesis
    using assms(2) by (auto simp: next_call_def)
qed

text \<open>The calls of any run are \<open>queries\<close>, and the cursor is where they left it.\<close>

lemma reachable_queries:
  assumes "reachable e len s"
  shows "calls s = queries e len (length (calls s)) \<and> fiemap_start s = chunk_cursor (calls s)"
  using assms
proof (induction rule: reachable.induct)
  case start
  show ?case by (simp add: initial_state_def chunk_cursor_def)
next
  case (iterate s s')
  then have cs: "calls s = queries e len (length (calls s))"
    and cur: "fiemap_start s = chunk_cursor (calls s)" by simp_all
  from iterate.hyps(3) cur have c': "calls s' = calls s @ [next_call e len (calls s)]"
    by (intro loop_body_calls) simp_all
  with cs have "calls s' = queries e len (Suc (length (calls s)))"
    by simp
  with c' have 1: "calls s' = queries e len (length (calls s'))" by simp
  from iterate.hyps(3) have "fiemap_start s' = extent_end (last_mapped (reply (last (calls s'))))"
    by (rule loop_body_NextE) simp
  with c' have 2: "fiemap_start s' = chunk_cursor (calls s')"
    by (simp add: chunk_cursor_def)
  from 1 2 show ?case ..
qed

lemma issued_queries:
  assumes "read_fiemap e = Some out" and "fstat e = Some len"
  shows "issued out = queries e len (length (issued out))"
proof (cases "alloc_ok e 0 (sizeof_fiemap + SIZE_OF_EXTENTS) \<and> alloc_ok e 1 sizeof_fiemap")
  case False
  with assms show ?thesis
    by (auto simp: read_fiemap_def fail_cleanup_def split: if_splits)
next
  case True
  with assms have "read_loop e len initial_state = Some out"
    by (simp add: read_fiemap_def)
  then show ?thesis
  proof (cases rule: read_loop_cases)
    case (finished s)
    with reachable_queries [of e len s] show ?thesis by (simp add: finish_def)
  next
    case (broke s s')
    from reachable_queries [OF broke(1)] have cs: "calls s = queries e len (length (calls s))"
      and cur: "fiemap_start s = chunk_cursor (calls s)" by simp_all
    from broke(3) cur have "calls s' = calls s @ [next_call e len (calls s)]"
      by (intro loop_body_calls) simp_all
    with cs have "calls s' = queries e len (Suc (length (calls s)))" by simp
    moreover from \<open>calls s' = calls s @ [next_call e len (calls s)]\<close>
    have "length (calls s') = Suc (length (calls s))" by simp
    ultimately show ?thesis using broke(4) by (simp add: finish_def)
  next
    case (failed s f s')
    from reachable_queries [OF failed(1)] have cs: "calls s = queries e len (length (calls s))"
      and cur: "fiemap_start s = chunk_cursor (calls s)" by simp_all
    from failed(3) cur have "calls s' = calls s @ [next_call e len (calls s)]"
      by (intro loop_body_calls) simp_all
    with cs have "calls s' = queries e len (Suc (length (calls s)))" by simp
    moreover from \<open>calls s' = calls s @ [next_call e len (calls s)]\<close>
    have "length (calls s') = Suc (length (calls s))" by simp
    ultimately show ?thesis using failed(4) by (simp add: fail_cleanup_def)
  qed
qed

lemma chunk_cursor_queries:
  "chunk_cursor (queries e len k) =
     (if k = 0 then 0 else extent_end (last_mapped (reply (next_call e len (queries e len (k - 1))))))"
  by (cases k) (simp_all add: chunk_cursor_def)

lemma request_queries:
  assumes "k < n"
  shows "request (queries e len n ! k) = expected_request len (queries e len n) k"
proof -
  from assms have "request (queries e len n ! k) = build_request (chunk_cursor (queries e len k)) len"
    by (simp add: queries_nth)
  moreover have "k \<noteq> 0 \<Longrightarrow> queries e len n ! (k - 1) = next_call e len (queries e len (k - 1))"
    using assms by (intro queries_nth) simp
  ultimately show ?thesis
    by (simp add: chunk_cursor_queries expected_request_def build_request_def MAX_EXTENTS_def)
qed

section \<open>The loop over the file arguments\<close>

text \<open>\<^verbatim>\<open>main\<close> gets through every argument list.\<close>

lemma process_files_exits:
  assumes ok: "\<forall>i name e. open_file i name = Some e \<longrightarrow> sane_allocator e \<and> honours_capacity e"
  shows "\<exists>msgs. process_files open_file i files out = Some (Exit EXIT_SUCCESS (out @ msgs)) \<and>
           length msgs = length files \<and>
           (\<forall>j<length files. reported open_file (i + j) (files ! j) (msgs ! j))"
proof (induction files arbitrary: i out)
  case Nil
  show ?case by simp
next
  case (Cons name rest)
  have "\<exists>m. reported open_file i name m \<and>
      process_files open_file i (name # rest) out =
      process_files open_file (Suc i) rest (out @ [m])"
  proof (cases "open_file i name")
    case None
    then show ?thesis by (simp add: reported_def)
  next
    case (Some e)
    with ok have "sane_allocator e" and "honours_capacity e" by blast+
    then obtain r where r: "read_fiemap e = Some r" and d: "returned r \<noteq> Inl Undefined_behaviour"
      using read_fiemap_returns by blast
    show ?thesis
    proof (cases "returned r")
      case (Inr fm)
      with Some r show ?thesis by (simp add: reported_def)
    next
      case (Inl f)
      with d have "f \<noteq> Undefined_behaviour" by simp
      with Some r Inl show ?thesis by (cases f) (simp_all add: reported_def)
    qed
  qed
  then obtain m where m: "reported open_file i name m"
    and step: "process_files open_file i (name # rest) out =
      process_files open_file (Suc i) rest (out @ [m])" by blast
  from Cons.IH [of "Suc i" "out @ [m]"] obtain msgs where
    run: "process_files open_file (Suc i) rest (out @ [m]) = Some (Exit EXIT_SUCCESS ((out @ [m]) @ msgs))"
    and len: "length msgs = length rest"
    and each: "\<forall>j<length rest. reported open_file (Suc i + j) (rest ! j) (msgs ! j)"
    by blast
  have "\<forall>j<length (name # rest). reported open_file (i + j) ((name # rest) ! j) ((m # msgs) ! j)"
  proof (intro allI impI)
    fix j
    assume "j < length (name # rest)"
    then show "reported open_file (i + j) ((name # rest) ! j) ((m # msgs) ! j)"
      using m each by (cases j) simp_all
  qed
  with step run len show ?case
    by (intro exI [of _ "m # msgs"]) simp
qed

section \<open>The simulated files, evaluated\<close>

lemma scripted_simps [simp]:
  "fstat (scripted sz0 script) = Some sz0"
  "alloc_ok (scripted sz0 script) n sz \<longleftrightarrow> unat sz \<le> 2 ^ 20"
  by (simp_all add: scripted_def)

lemma sane_scripted: "sane_allocator (scripted sz0 script)"
  by (simp add: sane_allocator_def PTRDIFF_MAX_def)

lemma honours_scripted: "honours_capacity (scripted sz0 script)"
  unfolding honours_capacity_def
proof (intro allI impI)
  fix k buffer
  assume ok: "0 \<le> fst (ioctl (scripted sz0 script) k buffer)"
  show "fm_mapped_extents (snd (ioctl (scripted sz0 script) k buffer)) \<le> fm_extent_count buffer"
  proof (cases "k < length script")
    case False
    with ok show ?thesis by (simp add: scripted_def)
  next
    case True
    let ?n = "min (length (snd (script ! k))) (unat (fm_extent_count buffer))"
    have "?n \<le> unat (fm_extent_count buffer)" by simp
    moreover have "unat (fm_extent_count buffer) < 2 ^ 32"
      using unsigned_less [of "fm_extent_count buffer"] by simp
    ultimately have "?n < 2 ^ 32" by (rule le_less_trans)
    then have "unat (of_nat ?n :: 32 word) = ?n" by (simp add: unat_of_nat)
    then have "(of_nat ?n :: 32 word) \<le> fm_extent_count buffer"
      by (simp add: word_le_nat_alt)
    with True show ?thesis by (simp add: scripted_def Let_def)
  qed
qed

lemma unat_of_nat_1024:
  assumes "n \<le> 1024"
  shows "unat (of_nat n :: 32 word) = n"
proof -
  from assms have "n < 2 ^ 32" by simp
  then show ?thesis by (simp add: unat_of_nat)
qed

lemma unat_of_nat_minus_1:
  assumes "0 < n" and "n \<le> 1024"
  shows "unat (of_nat n - 1 :: 32 word) = n - 1"
proof -
  from assms(1) have "(of_nat n - 1 :: 32 word) = of_nat (n - 1)"
    by (cases n) simp_all
  moreover from assms(2) have "n - 1 \<le> 1024" by simp
  ultimately show ?thesis by (simp only: unat_of_nat_1024)
qed

lemma next_call_scripted:
  assumes "length cs < length script" and "length (snd (script ! length cs)) \<le> 1024"
  shows "retval (next_call (scripted sz0 script) len cs) = fst (script ! length cs)"
    and "fm_mapped_extents (reply (next_call (scripted sz0 script) len cs)) =
           of_nat (length (snd (script ! length cs)))"
    and "fm_extents (reply (next_call (scripted sz0 script) len cs)) =
           (\<lambda>i. if i < length (snd (script ! length cs))
                then snd (script ! length cs) ! i else zero_extent)"
  using assms
  by (auto simp: next_call_def scripted_def build_request_def Let_def MAX_EXTENTS_def
      cong: if_cong)

lemma scripted_reply:
  assumes "length cs < length script" and "length (snd (script ! length cs)) \<le> 1024"
  shows "mapped_extents (reply (next_call (scripted sz0 script) len cs)) = snd (script ! length cs)"
    and "snd (script ! length cs) \<noteq> [] \<Longrightarrow>
         last_mapped (reply (next_call (scripted sz0 script) len cs)) = last (snd (script ! length cs))"
proof -
  let ?xs = "snd (script ! length cs)"
  let ?fm = "reply (next_call (scripted sz0 script) len cs)"
  have m: "unat (fm_mapped_extents ?fm) = length ?xs"
    using assms by (simp add: next_call_scripted unat_of_nat_1024)
  show "mapped_extents ?fm = ?xs"
    unfolding mapped_extents_def m
    by (rule nth_equalityI) (simp_all add: next_call_scripted(3) [OF assms])
  assume "?xs \<noteq> []"
  then have pos: "0 < length ?xs" by simp
  then have "unat (fm_mapped_extents ?fm - 1) = length ?xs - 1"
    using assms by (simp add: next_call_scripted unat_of_nat_minus_1)
  with pos show "last_mapped ?fm = last ?xs"
    by (simp add: last_mapped_def next_call_scripted(3) [OF assms] last_conv_nth)
qed

lemmas scripted_eval =
  next_call_scripted(1,2) scripted_reply continues_def stops_def flagged_last_def
  extent_end_def block_def FIEMAP_EXTENT_LAST_def MAX_EXTENTS_def
  sizeof_fiemap_def sizeof_fiemap_extent_def SIZE_OF_EXTENTS_def last_map unat_of_nat_1024
  mapped_total_def all_mapped_def

lemma queries_numeral [simp]:
  "queries e len (numeral k) =
     queries e len (pred_numeral k) @ [next_call e len (queries e len (pred_numeral k))]"
  by (simp add: numeral_eq_Suc)

lemma all_le_numeral:
  "(\<forall>k\<le>numeral n. P k) \<longleftrightarrow> P (numeral n) \<and> (\<forall>k\<le>pred_numeral n. P k)"
  by (auto simp: numeral_eq_Suc le_Suc_eq)

lemma all_less_numeral:
  "(\<forall>k<numeral n. P k) \<longleftrightarrow> P (pred_numeral n) \<and> (\<forall>k<pred_numeral n. P k)"
  by (auto simp: numeral_eq_Suc less_Suc_eq)

text \<open>The runs on the simulated files.\<close>

lemma three_chunks_facts:
  "fstat three_chunks = Some (2053 * 4096)" "0 < (2053 * 4096 :: 64 word)"
  "alloc_ok three_chunks 0 (sizeof_fiemap + SIZE_OF_EXTENTS)"
  "alloc_ok three_chunks 1 sizeof_fiemap"
  "list_all (continues (2053 * 4096)) (queries three_chunks (2053 * 4096) 2)"
  "stops (2053 * 4096) (next_call three_chunks (2053 * 4096) (queries three_chunks (2053 * 4096) 2))"
  "list_all (\<lambda>c. fm_mapped_extents (reply c) \<le> MAX_EXTENTS)
     (queries three_chunks (2053 * 4096) (Suc 2))"
  "\<forall>k\<le>2. alloc_ok three_chunks (2 + k)
     (of_nat (32 + 56 * mapped_total (queries three_chunks (2053 * 4096) (Suc k))))"
  "56 * mapped_total (queries three_chunks (2053 * 4096) (Suc 2)) < 2 ^ 31"
  by (simp_all add: three_chunks_def scripted_eval mapped_total_def all_le_numeral le_Suc_eq
      all_conj_distrib del: upt_rec_numeral)

lemma three_chunks_counts:
  "map (\<lambda>c. unat (fm_mapped_extents (reply c))) (queries three_chunks (2053 * 4096) 3) =
     [1024, 1024, 5]"
  by (simp add: three_chunks_def scripted_eval del: upt_rec_numeral)

lemma three_chunks_run:
  "read_fiemap three_chunks =
     Some \<lparr>returned = Inr \<lparr>res_mapped_extents = 2053,
                            res_extents = all_mapped (queries three_chunks (2053 * 4096) 3)\<rparr>,
           issued = queries three_chunks (2053 * 4096) 3, live = {Result_buffer}\<rparr>"
proof -
  have "mapped_total (queries three_chunks (2053 * 4096) 3) = 2053"
    using three_chunks_counts by (simp add: mapped_total_def del: queries.simps queries_numeral)
  moreover have "Suc 2 = 3" by simp
  ultimately show ?thesis
    using read_fiemap_run [OF three_chunks_facts] by (simp del: queries.simps queries_numeral)
qed

lemma varying_chunks_facts:
  "fstat varying_chunks = Some (1028 * 4096)" "0 < (1028 * 4096 :: 64 word)"
  "alloc_ok varying_chunks 0 (sizeof_fiemap + SIZE_OF_EXTENTS)"
  "alloc_ok varying_chunks 1 sizeof_fiemap"
  "list_all (continues (1028 * 4096)) (queries varying_chunks (1028 * 4096) 2)"
  "stops (1028 * 4096) (next_call varying_chunks (1028 * 4096) (queries varying_chunks (1028 * 4096) 2))"
  "list_all (\<lambda>c. fm_mapped_extents (reply c) \<le> MAX_EXTENTS)
     (queries varying_chunks (1028 * 4096) (Suc 2))"
  "\<forall>k\<le>2. alloc_ok varying_chunks (2 + k)
     (of_nat (32 + 56 * mapped_total (queries varying_chunks (1028 * 4096) (Suc k))))"
  "56 * mapped_total (queries varying_chunks (1028 * 4096) (Suc 2)) < 2 ^ 31"
  by (simp_all add: varying_chunks_def scripted_eval mapped_total_def all_le_numeral le_Suc_eq
      all_conj_distrib del: upt_rec_numeral)

lemma varying_chunks_mapped:
  "map (\<lambda>c. mapped_extents (reply c)) (queries varying_chunks (1028 * 4096) 3) =
     [[block False 0], map (block False) [1..<1025],
      [block False 1025, block False 1026, block True 1027]]"
  by (simp add: varying_chunks_def scripted_eval del: upt_rec_numeral)

lemma varying_chunks_run:
  "read_fiemap varying_chunks =
     Some \<lparr>returned = Inr \<lparr>res_mapped_extents = 1028,
                            res_extents = all_mapped (queries varying_chunks (1028 * 4096) 3)\<rparr>,
           issued = queries varying_chunks (1028 * 4096) 3, live = {Result_buffer}\<rparr>"
proof -
  have "mapped_total (queries varying_chunks (1028 * 4096) 3) =
      length (concat (map (\<lambda>c. mapped_extents (reply c)) (queries varying_chunks (1028 * 4096) 3)))"
    by (simp only: length_all_mapped [symmetric] all_mapped_def)
  also have "\<dots> = 1028"
    by (simp only: varying_chunks_mapped) simp
  finally have "mapped_total (queries varying_chunks (1028 * 4096) 3) = 1028" .
  moreover have "Suc 2 = 3" by simp
  ultimately show ?thesis
    using read_fiemap_run [OF varying_chunks_facts] by (simp del: queries.simps queries_numeral)
qed

lemma two_chunks_facts:
  "fstat two_chunks = Some 8192" "0 < (8192 :: 64 word)"
  "alloc_ok two_chunks 0 (sizeof_fiemap + SIZE_OF_EXTENTS)"
  "alloc_ok two_chunks 1 sizeof_fiemap"
  "list_all (continues 8192) (queries two_chunks 8192 1)"
  "stops 8192 (next_call two_chunks 8192 (queries two_chunks 8192 1))"
  "list_all (\<lambda>c. fm_mapped_extents (reply c) \<le> MAX_EXTENTS) (queries two_chunks 8192 (Suc 1))"
  "\<forall>k\<le>1. alloc_ok two_chunks (2 + k)
     (of_nat (32 + 56 * mapped_total (queries two_chunks 8192 (Suc k))))"
  "56 * mapped_total (queries two_chunks 8192 (Suc 1)) < 2 ^ 31"
  by (simp_all add: two_chunks_def scripted_eval mapped_total_def le_Suc_eq all_conj_distrib)

lemma two_chunks_run:
  "read_fiemap two_chunks =
     Some \<lparr>returned = Inr \<lparr>res_mapped_extents = 2,
                            res_extents = all_mapped (queries two_chunks 8192 2)\<rparr>,
           issued = queries two_chunks 8192 2, live = {Result_buffer}\<rparr>"
proof -
  have "mapped_total (queries two_chunks 8192 2) = 2"
    by (simp add: two_chunks_def scripted_eval mapped_total_def)
  then show ?thesis
    using read_fiemap_run [OF two_chunks_facts, unfolded Suc_1]
    by (simp del: queries.simps queries_numeral)
qed

lemma two_chunks_first_end:
  "extent_end (last_mapped (reply (queries two_chunks 8192 2 ! 0))) = 4096"
  by (simp add: two_chunks_def scripted_eval)

lemma revisits_facts:
  "fstat revisits = Some 8192" "0 < (8192 :: 64 word)"
  "alloc_ok revisits 0 (sizeof_fiemap + SIZE_OF_EXTENTS)"
  "alloc_ok revisits 1 sizeof_fiemap"
  "list_all (continues 8192) (queries revisits 8192 2)"
  "stops 8192 (next_call revisits 8192 (queries revisits 8192 2))"
  "list_all (\<lambda>c. fm_mapped_extents (reply c) \<le> MAX_EXTENTS) (queries revisits 8192 (Suc 2))"
  "\<forall>k\<le>2. alloc_ok revisits (2 + k)
     (of_nat (32 + 56 * mapped_total (queries revisits 8192 (Suc k))))"
  "56 * mapped_total (queries revisits 8192 (Suc 2)) < 2 ^ 31"
  by (simp_all add: revisits_def scripted_eval mapped_total_def all_le_numeral le_Suc_eq
      all_conj_distrib)

lemma revisits_run:
  "read_fiemap revisits =
     Some \<lparr>returned = Inr \<lparr>res_mapped_extents = 3,
                            res_extents = [block False 0, block False 0, block True 1]\<rparr>,
           issued = queries revisits 8192 3, live = {Result_buffer}\<rparr>"
proof -
  have "mapped_total (queries revisits 8192 3) = 3"
    by (simp add: revisits_def scripted_eval mapped_total_def)
  moreover have "all_mapped (queries revisits 8192 3) = [block False 0, block False 0, block True 1]"
    by (simp add: revisits_def scripted_eval all_mapped_def)
  moreover have "Suc 2 = 3" by simp
  ultimately show ?thesis
    using read_fiemap_run [OF revisits_facts] by (simp del: queries.simps queries_numeral)
qed

lemma second_call_fails_run:
  "read_fiemap second_call_fails =
     Some \<lparr>returned = Inl Ioctl_failed, issued = queries second_call_fails 8192 2, live = {}\<rparr>"
proof -
  let ?e = second_call_fails
  let ?s = "state_after ?e 8192 1"
  let ?c = "next_call ?e 8192 (queries ?e 8192 1)"
  have h: "fstat ?e = Some 8192"
    "alloc_ok ?e 0 (sizeof_fiemap + SIZE_OF_EXTENTS)" "alloc_ok ?e 1 sizeof_fiemap"
    by (simp_all add: second_call_fails_def scripted_eval)
  have r: "reachable ?e 8192 ?s" and lt: "fiemap_start ?s < 8192"
    by (rule reachable_state_after;
        simp add: second_call_fails_def scripted_eval mapped_total_def)+
  have io: "ioctl ?e (length (calls ?s)) (build_request (fiemap_start ?s) 8192) = (retval ?c, reply ?c)"
    using next_call_ioctl [of ?e "queries ?e 8192 1" 8192]
    by (simp add: state_after_def)
  have rc: "retval ?c < 0"
    by (simp add: second_call_fails_def scripted_eval)
  have "calls ?s @ [\<lparr>request = build_request (fiemap_start ?s) 8192, retval = retval ?c,
      reply = reply ?c\<rparr>] = queries ?e 8192 2"
    by (simp add: state_after_def)
  with loop_body_ioctl_failed [OF io rc] lt
  have "read_loop ?e 8192 ?s =
      Some \<lparr>returned = Inl Ioctl_failed, issued = queries ?e 8192 2, live = {}\<rparr>"
    by (subst read_loop.simps) (simp add: fail_cleanup_both del: queries.simps queries_numeral)
  then show ?thesis
    by (simp only: read_loop_reachable [OF r] read_fiemap_loop [OF h])
qed

section \<open>Properties of the query driver\<close>

text \<open>
  C1. The driver does not stop because a chunk holds fewer extents than the buffer has
  slots: whatever the (nonzero) counts of the first \<open>n\<close> chunks are, as long as each of
  them ends before the file size without the last-extent flag, the driver queries again;
  it stops at the first chunk whose last extent carries the flag, that maps no extent,
  or that ends at or past the file size. It has then made exactly \<open>n + 1\<close> calls and
  returns all mapped extents, their count the sum of the chunks' counts. For chunks of
  1024, 1024 and 5 extents, the fifth flagged last: 3 calls and 2053 extents.
  (The file is not empty, no call fails, no chunk exceeds the 1024 slots, and each
  \<^verbatim>\<open>realloc\<close>, for the 32 bytes of the header and 56 bytes per extent so far, is
  granted.)
\<close>

theorem queries_until_stop:
  assumes "fstat e = Some len" and "0 < len"
    and "alloc_ok e 0 (sizeof_fiemap + SIZE_OF_EXTENTS)" and "alloc_ok e 1 sizeof_fiemap"
    and "list_all (continues len) (queries e len n)"
    and "stops len (next_call e len (queries e len n))"
    and "list_all (\<lambda>c. fm_mapped_extents (reply c) \<le> MAX_EXTENTS) (queries e len (Suc n))"
    and "\<forall>k\<le>n. alloc_ok e (2 + k) (of_nat (32 + 56 * mapped_total (queries e len (Suc k))))"
    and "56 * mapped_total (queries e len (Suc n)) < 2 ^ 31"
  shows "\<exists>out r. read_fiemap e = Some out \<and> returned out = Inr r \<and>
           issued out = queries e len (Suc n) \<and> length (issued out) = Suc n \<and>
           unat (res_mapped_extents r) = mapped_total (queries e len (Suc n)) \<and>
           res_extents r = all_mapped (queries e len (Suc n))"
proof -
  from assms(9) have "unat (of_nat (mapped_total (queries e len (Suc n))) :: 32 word) =
      mapped_total (queries e len (Suc n))"
    by (rule unat_of_nat_small)
  with read_fiemap_run [OF assms] show ?thesis by simp
qed

text \<open>C1, witness: the scenario of three chunks with 1024, 1024 and 5 extents.\<close>

theorem queries_until_stop_three_chunks:
  "map (\<lambda>c. unat (fm_mapped_extents (reply c))) (queries three_chunks (2053 * 4096) 3) =
     [1024, 1024, 5] \<and>
   list_all (continues (2053 * 4096)) (queries three_chunks (2053 * 4096) 2) \<and>
   stops (2053 * 4096) (next_call three_chunks (2053 * 4096) (queries three_chunks (2053 * 4096) 2)) \<and>
   (\<exists>out r. read_fiemap three_chunks = Some out \<and> returned out = Inr r \<and>
      length (issued out) = 3 \<and> res_mapped_extents r = 2053 \<and> length (res_extents r) = 2053)"
proof -
  let ?len = "2053 * 4096 :: 64 word"
  have s3: "Suc 2 = 3" by simp
  have total: "mapped_total (queries three_chunks ?len 3) = 2053"
    using three_chunks_counts
    by (simp add: mapped_total_def del: queries.simps queries_numeral)
  from queries_until_stop [OF three_chunks_facts]
  obtain out r where "read_fiemap three_chunks = Some out" "returned out = Inr r"
    "length (issued out) = Suc 2"
    "unat (res_mapped_extents r) = mapped_total (queries three_chunks ?len (Suc 2))"
    "res_extents r = all_mapped (queries three_chunks ?len (Suc 2))"
    by blast
  then have "read_fiemap three_chunks = Some out \<and> returned out = Inr r \<and>
      length (issued out) = 3 \<and> res_mapped_extents r = 2053 \<and> length (res_extents r) = 2053"
    unfolding s3 using total by (simp add: word_unat_eq_iff del: queries.simps queries_numeral)
  with three_chunks_counts three_chunks_facts(5,6) show ?thesis by blast
qed

text \<open>
  C2. A failing query is fatal for the file and leaves nothing behind: at whatever point
  of the loop the next \<^verbatim>\<open>ioctl\<close> call reports an error, \<^verbatim>\<open>read_fiemap\<close> returns \<^verbatim>\<open>NULL\<close>
  (no result, whatever was accumulated from earlier calls) and both heap blocks are freed.
\<close>

theorem failed_query_returns_nothing:
  assumes "fstat e = Some len"
    and "alloc_ok e 0 (sizeof_fiemap + SIZE_OF_EXTENTS)" and "alloc_ok e 1 sizeof_fiemap"
    and "reachable e len s" and "fiemap_start s < len"
    and "ioctl e (length (calls s)) (build_request (fiemap_start s) len) = (rc, fm)"
    and "rc < 0"
  shows "read_fiemap e =
    Some \<lparr>returned = Inl Ioctl_failed,
          issued = calls s @
            [\<lparr>request = build_request (fiemap_start s) len, retval = rc, reply = fm\<rparr>],
          live = {}\<rparr>"
proof -
  from loop_body_ioctl_failed [OF assms(6,7)] assms(5)
  have "read_loop e len s =
      Some \<lparr>returned = Inl Ioctl_failed,
        issued = calls s @ [\<lparr>request = build_request (fiemap_start s) len, retval = rc, reply = fm\<rparr>],
        live = {}\<rparr>"
    by (subst read_loop.simps) (simp add: fail_cleanup_both)
  then show ?thesis
    by (simp only: read_loop_reachable [OF assms(4)] read_fiemap_loop [OF assms(1-3)])
qed

text \<open>C2, witness: the first call maps one extent, the second call fails.\<close>

theorem failed_query_returns_nothing_witness:
  "reachable second_call_fails 8192 (state_after second_call_fails 8192 1) \<and>
   result_fm_extents (state_after second_call_fails 8192 1) = [block False 0] \<and>
   retval (next_call second_call_fails 8192 (queries second_call_fails 8192 1)) < 0 \<and>
   read_fiemap second_call_fails \<noteq> None \<and>
   returned (the (read_fiemap second_call_fails)) = Inl Ioctl_failed \<and>
   length (issued (the (read_fiemap second_call_fails))) = 2 \<and>
   live (the (read_fiemap second_call_fails)) = {}"
proof -
  let ?e = second_call_fails
  let ?s = "state_after ?e 8192 1"
  let ?c = "next_call ?e 8192 (queries ?e 8192 1)"
  have n1: "(1 :: nat) = Suc 0" by simp
  have h: "fstat ?e = Some 8192"
    "alloc_ok ?e 0 (sizeof_fiemap + SIZE_OF_EXTENTS)" "alloc_ok ?e 1 sizeof_fiemap"
    by (simp_all add: second_call_fails_def scripted_eval)
  have "reachable ?e 8192 ?s" and lt: "fiemap_start ?s < 8192"
    unfolding n1
    by (rule reachable_state_after;
        simp add: second_call_fails_def scripted_eval mapped_total_def)+
  note r = this(1)
  have io: "ioctl ?e (length (calls ?s)) (build_request (fiemap_start ?s) 8192) = (retval ?c, reply ?c)"
    using next_call_ioctl [of ?e "queries ?e 8192 1" 8192]
    by (simp add: state_after_def)
  have rc: "retval ?c < 0"
    unfolding n1 by (simp add: second_call_fails_def scripted_eval)
  have ex: "result_fm_extents ?s = [block False 0]"
    unfolding n1 by (simp add: state_after_def second_call_fails_def scripted_eval)
  from failed_query_returns_nothing [OF h r lt io rc] r ex rc show ?thesis
    by (simp add: state_after_def)
qed

text \<open>
  C3. At the loop condition of every iteration, and in the result that is returned, the
  extent count (\<^verbatim>\<open>result_extents\<close>, then \<^verbatim>\<open>fm_mapped_extents\<close> of the result) equals the sum
  of the \<^verbatim>\<open>fm_mapped_extents\<close> that the calls made so far returned.
\<close>

theorem count_is_sum_of_chunks:
  "(reachable e len s \<longrightarrow> unat (result_extents s) = mapped_total (calls s)) \<and>
   (\<forall>out r. read_fiemap e = Some out \<and> returned out = Inr r \<longrightarrow>
      unat (res_mapped_extents r) = mapped_total (issued out))"
proof (intro conjI allI impI)
  assume "reachable e len s"
  then have "consistent s" by (rule reachable_consistent)
  then show "unat (result_extents s) = mapped_total (calls s)"
    by (simp add: consistent_def)
next
  fix out r
  assume "read_fiemap e = Some out \<and> returned out = Inr r"
  then obtain s where "consistent s" and "out = finish s" and "returned out = Inr r"
    using read_fiemap_result by blast
  then show "unat (res_mapped_extents r) = mapped_total (issued out)"
    by (auto simp: consistent_def finish_def)
qed

text \<open>C3, witness: the three-chunk file after two chunks, and its result.\<close>

theorem count_is_sum_of_chunks_witness:
  "reachable three_chunks (2053 * 4096) (state_after three_chunks (2053 * 4096) 2) \<and>
   unat (result_extents (state_after three_chunks (2053 * 4096) 2)) = 1024 + 1024 \<and>
   map (\<lambda>c. unat (fm_mapped_extents (reply c)))
     (calls (state_after three_chunks (2053 * 4096) 2)) = [1024, 1024] \<and>
   read_fiemap three_chunks \<noteq> None \<and>
   res_mapped_extents (projr (returned (the (read_fiemap three_chunks)))) = 2053 \<and>
   map (\<lambda>c. unat (fm_mapped_extents (reply c))) (issued (the (read_fiemap three_chunks))) =
     [1024, 1024, 5]"
proof -
  let ?len = "2053 * 4096 :: 64 word"
  let ?s = "state_after three_chunks ?len 2"
  have r: "reachable three_chunks ?len ?s"
    by (rule reachable_state_after)
      (simp_all add: three_chunks_def scripted_eval mapped_total_def all_less_numeral
        less_Suc_eq all_conj_distrib del: upt_rec_numeral)
  have c2: "map (\<lambda>c. unat (fm_mapped_extents (reply c))) (calls ?s) = [1024, 1024]"
    by (simp add: state_after_def three_chunks_def scripted_eval del: upt_rec_numeral)
  then have "mapped_total (calls ?s) = 1024 + 1024"
    by (simp add: mapped_total_def)
  with count_is_sum_of_chunks [of three_chunks ?len ?s] r
  have "unat (result_extents ?s) = 1024 + 1024" by simp
  with r c2 three_chunks_run three_chunks_counts show ?thesis
    by (simp del: queries.simps queries_numeral)
qed

text \<open>
  C4. Appending a chunk puts its extents right behind those already accumulated, which
  stay as they are: each append (the one before the loop goes on and the one before it
  stops) extends the sequence by the chunk's mapped extents, so at the loop condition of
  every iteration, and in the result that is returned, the accumulated sequence is the
  concatenation of the chunks' mapped extents in call order.
\<close>

theorem appends_concatenate:
  "(reachable e len s \<and> fiemap_start s < len \<and>
      (loop_body e len s = Next s' \<or> loop_body e len s = Break s') \<longrightarrow>
      result_fm_extents s' = result_fm_extents s @ mapped_extents (reply (last (calls s')))) \<and>
   (reachable e len s \<longrightarrow> result_fm_extents s = all_mapped (calls s)) \<and>
   (\<forall>out r. read_fiemap e = Some out \<and> returned out = Inr r \<longrightarrow>
      res_extents r = all_mapped (issued out))"
proof (intro conjI allI impI)
  assume "reachable e len s \<and> fiemap_start s < len \<and>
      (loop_body e len s = Next s' \<or> loop_body e len s = Break s')"
  then have "consistent s" and "loop_body e len s = Next s' \<or> loop_body e len s = Break s'"
    by (auto dest: reachable_consistent)
  then show "result_fm_extents s' = result_fm_extents s @ mapped_extents (reply (last (calls s')))"
    by (rule Break_or_Next_appends)
next
  assume "reachable e len s"
  then have "consistent s" by (rule reachable_consistent)
  then show "result_fm_extents s = all_mapped (calls s)"
    by (simp add: consistent_def)
next
  fix out r
  assume "read_fiemap e = Some out \<and> returned out = Inr r"
  then obtain s where "consistent s" and "out = finish s" and "returned out = Inr r"
    using read_fiemap_result by blast
  then show "res_extents r = all_mapped (issued out)"
    by (auto simp: consistent_def finish_def)
qed

text \<open>C4, witness: chunks of 1, 1024 and 3 extents.\<close>

theorem appends_concatenate_witness:
  "reachable varying_chunks (1028 * 4096) (state_after varying_chunks (1028 * 4096) 1) \<and>
   loop_body varying_chunks (1028 * 4096) (state_after varying_chunks (1028 * 4096) 1) =
     Next (state_after varying_chunks (1028 * 4096) 2) \<and>
   result_fm_extents (state_after varying_chunks (1028 * 4096) 1) = [block False 0] \<and>
   result_fm_extents (state_after varying_chunks (1028 * 4096) 2) =
     [block False 0] @ map (block False) [1..<1025] \<and>
   read_fiemap varying_chunks \<noteq> None \<and>
   res_extents (projr (returned (the (read_fiemap varying_chunks)))) =
     [block False 0] @ map (block False) [1..<1025] @
     [block False 1025, block False 1026, block True 1027]"
proof -
  let ?len = "1028 * 4096 :: 64 word"
  let ?e = varying_chunks
  let ?s1 = "state_after ?e ?len 1"
  let ?s2 = "state_after ?e ?len 2"
  have r: "reachable ?e ?len ?s1" and lt: "fiemap_start ?s1 < ?len"
    by (rule reachable_state_after;
        simp add: varying_chunks_def scripted_eval mapped_total_def del: upt_rec_numeral)+
  have "Suc 1 = 2" by simp
  have body: "loop_body ?e ?len ?s1 = Next ?s2"
    using state_after_step [of ?e ?len 1]
    unfolding \<open>Suc 1 = 2\<close>
    by (simp add: varying_chunks_def scripted_eval mapped_total_def del: upt_rec_numeral)
  have e1: "result_fm_extents ?s1 = [block False 0]"
    by (simp add: state_after_def varying_chunks_def scripted_eval)
  have c2: "mapped_extents (reply (last (calls ?s2))) = map (block False) [1..<1025]"
    by (simp add: state_after_def varying_chunks_def scripted_eval del: upt_rec_numeral)
  from appends_concatenate [of ?e ?len ?s1 ?s2] r lt body
  have "result_fm_extents ?s2 = result_fm_extents ?s1 @ mapped_extents (reply (last (calls ?s2)))"
    by blast
  with e1 c2 have e2: "result_fm_extents ?s2 = [block False 0] @ map (block False) [1..<1025]"
    by simp
  have "all_mapped (queries ?e ?len 3) = [block False 0] @ map (block False) [1..<1025] @
     [block False 1025, block False 1026, block True 1027]"
    unfolding all_mapped_def varying_chunks_mapped by simp
  with r body e1 e2 varying_chunks_run show ?thesis
    by (simp del: queries.simps queries_numeral upt_rec_numeral)
qed

text \<open>
  C5, as amended. In every iteration the buffer passed to the interface is zeroed, starts
  at the cursor (0 at first, then the end of the previous chunk's last extent), has the
  fixed capacity of 1024 extents and the flush flag set, and its length field is the file
  size, the same in every iteration: the range asked for is \<open>[start, start + file_size)\<close>,
  not the remaining span. This holds of the calls made before any iteration, of the call
  an iteration makes, and of all calls of a returned run.
\<close>

theorem requests_as_built:
  "(reachable e len s \<and> k < length (calls s) \<longrightarrow>
      request (calls s ! k) = expected_request len (calls s) k) \<and>
   (reachable e len s \<and> fiemap_start s < len \<and>
      (loop_body e len s = Next s' \<or> loop_body e len s = Break s' \<or>
       loop_body e len s = Goto_fail_cleanup f s') \<longrightarrow>
      request (last (calls s')) = expected_request len (calls s') (length (calls s))) \<and>
   (read_fiemap e = Some out \<and> fstat e = Some len \<and> k < length (issued out) \<longrightarrow>
      request (issued out ! k) = expected_request len (issued out) k)"
proof (intro conjI impI)
  assume a: "reachable e len s \<and> k < length (calls s)"
  then have "calls s = queries e len (length (calls s))"
    using reachable_queries by blast
  with a request_queries [of k "length (calls s)" e len] show
    "request (calls s ! k) = expected_request len (calls s) k" by simp
next
  assume a: "reachable e len s \<and> fiemap_start s < len \<and>
      (loop_body e len s = Next s' \<or> loop_body e len s = Break s' \<or>
       loop_body e len s = Goto_fail_cleanup f s')"
  then have cs: "calls s = queries e len (length (calls s))"
    and cur: "fiemap_start s = chunk_cursor (calls s)"
    using reachable_queries by blast+
  from a have "loop_body e len s = Next s' \<or> loop_body e len s = Break s' \<or>
       loop_body e len s = Goto_fail_cleanup f s'" by simp
  then have c': "calls s' = calls s @ [next_call e len (calls s)]"
    using cur by (rule loop_body_calls)
  with cs have q: "calls s' = queries e len (Suc (length (calls s)))" by simp
  have "request (queries e len (Suc (length (calls s))) ! length (calls s)) =
      expected_request len (queries e len (Suc (length (calls s)))) (length (calls s))"
    by (rule request_queries) simp
  then have "request (calls s' ! length (calls s)) = expected_request len (calls s') (length (calls s))"
    by (simp only: q)
  moreover from c' have "last (calls s') = calls s' ! length (calls s)" by simp
  ultimately show "request (last (calls s')) = expected_request len (calls s') (length (calls s))"
    by simp
next
  assume a: "read_fiemap e = Some out \<and> fstat e = Some len \<and> k < length (issued out)"
  then have "issued out = queries e len (length (issued out))"
    using issued_queries by blast
  with a request_queries [of k "length (issued out)" e len] show
    "request (issued out ! k) = expected_request len (issued out) k" by simp
qed

text \<open>C5, witness: the two requests of a two-chunk file of 8192 bytes.\<close>

theorem requests_as_built_witness:
  "reachable two_chunks 8192 (state_after two_chunks 8192 1) \<and>
   fiemap_start (state_after two_chunks 8192 1) < 8192 \<and>
   loop_body two_chunks 8192 (state_after two_chunks 8192 1) =
     Break (state_after two_chunks 8192 2) \<and>
   read_fiemap two_chunks \<noteq> None \<and> fstat two_chunks = Some 8192 \<and>
   length (issued (the (read_fiemap two_chunks))) = 2 \<and>
   request (calls (state_after two_chunks 8192 1) ! 0) =
     \<lparr>fm_start = 0, fm_length = 8192, fm_flags = FIEMAP_FLAG_SYNC, fm_mapped_extents = 0,
      fm_extent_count = 1024, fm_extents = (\<lambda>_. zero_extent)\<rparr> \<and>
   request (last (calls (state_after two_chunks 8192 2))) =
     \<lparr>fm_start = 4096, fm_length = 8192, fm_flags = FIEMAP_FLAG_SYNC, fm_mapped_extents = 0,
      fm_extent_count = 1024, fm_extents = (\<lambda>_. zero_extent)\<rparr> \<and>
   request (issued (the (read_fiemap two_chunks)) ! 1) =
     \<lparr>fm_start = 4096, fm_length = 8192, fm_flags = FIEMAP_FLAG_SYNC, fm_mapped_extents = 0,
      fm_extent_count = 1024, fm_extents = (\<lambda>_. zero_extent)\<rparr>"
proof -
  let ?e = two_chunks
  let ?s1 = "state_after ?e 8192 1"
  let ?s2 = "state_after ?e 8192 2"
  let ?out = "the (read_fiemap ?e)"
  have r: "reachable ?e 8192 ?s1" and lt: "fiemap_start ?s1 < 8192"
    by (rule reachable_state_after; simp add: two_chunks_def scripted_eval mapped_total_def)+
  have body: "loop_body ?e 8192 ?s1 = Break ?s2"
    using state_after_step [of ?e 8192 1, unfolded Suc_1]
    by (simp add: two_chunks_def scripted_eval mapped_total_def)
  have out: "read_fiemap ?e = Some ?out" "fstat ?e = Some 8192" "length (issued ?out) = 2"
    by (simp_all add: two_chunks_run two_chunks_facts del: queries.simps queries_numeral)
  have l1: "length (calls ?s1) = 1" and l0: "0 < length (calls ?s1)" and l2: "1 < length (issued ?out)"
    by (simp_all add: state_after_def out(3))
  note inst = requests_as_built [of ?e 8192 ?s1 0 ?s2 undefined ?out]
  from inst r l0 have a: "request (calls ?s1 ! 0) = expected_request 8192 (calls ?s1) 0"
    by blast
  from inst r lt body have b: "request (last (calls ?s2)) =
      expected_request 8192 (calls ?s2) (length (calls ?s1))"
    by blast
  from requests_as_built [of ?e 8192 ?s1 1 ?s2 undefined ?out] out l2
  have c: "request (issued ?out ! 1) = expected_request 8192 (issued ?out) 1"
    by blast
  have e0: "expected_request 8192 (calls ?s1) 0 =
      \<lparr>fm_start = 0, fm_length = 8192, fm_flags = FIEMAP_FLAG_SYNC, fm_mapped_extents = 0,
       fm_extent_count = 1024, fm_extents = (\<lambda>_. zero_extent)\<rparr>"
    by (simp add: expected_request_def)
  have e1: "expected_request 8192 (queries ?e 8192 2) 1 =
      \<lparr>fm_start = 4096, fm_length = 8192, fm_flags = FIEMAP_FLAG_SYNC, fm_mapped_extents = 0,
       fm_extent_count = 1024, fm_extents = (\<lambda>_. zero_extent)\<rparr>"
    using two_chunks_first_end
    by (simp add: expected_request_def del: queries.simps queries_numeral)
  have cs2: "calls ?s2 = queries ?e 8192 2" and is2: "issued ?out = queries ?e 8192 2"
    by (simp_all add: state_after_def two_chunks_run del: queries.simps queries_numeral)
  have ne: "read_fiemap ?e \<noteq> None" by (simp add: two_chunks_run)
  from a b c show ?thesis
    unfolding e0 l1 cs2 is2 e1 using r lt body ne out(2,3)
    by (simp add: cs2 is2 del: queries.simps queries_numeral)
qed

text \<open>C5, counterexample to the claim as stated: the second request starts at 4096 and
  still asks for 8192 bytes, while 4096 remain.\<close>

theorem length_is_not_remaining_span:
  "read_fiemap two_chunks \<noteq> None \<and> fstat two_chunks = Some 8192 \<and>
   fm_start (request (issued (the (read_fiemap two_chunks)) ! 1)) = 4096 \<and>
   fm_length (request (issued (the (read_fiemap two_chunks)) ! 1)) = 8192 \<and>
   fm_length (request (issued (the (read_fiemap two_chunks)) ! 1)) \<noteq>
     8192 - fm_start (request (issued (the (read_fiemap two_chunks)) ! 1))"
proof -
  have "request (queries two_chunks 8192 2 ! 1) = expected_request 8192 (queries two_chunks 8192 2) 1"
    by (rule request_queries) simp
  then have "fm_start (request (queries two_chunks 8192 2 ! 1)) = 4096"
    and "fm_length (request (queries two_chunks 8192 2 ! 1)) = 8192"
    using two_chunks_first_end
    by (simp_all add: expected_request_def del: queries.simps queries_numeral)
  then show ?thesis
    by (simp add: two_chunks_run two_chunks_facts del: queries.simps queries_numeral)
qed

text \<open>
  C6, as amended. The driver never compares the new cursor with the old one. After a
  chunk with a nonzero number of extents, none flagged last, whose cursor does not move
  past its previous value, it appends the chunk and goes on to query again from the
  returned cursor, as after any other chunk. It still cannot loop forever: with an
  allocator that grants no request above \<^verbatim>\<open>PTRDIFF_MAX\<close> bytes and a kernel that maps
  no more extents than the buffer holds, every run of \<^verbatim>\<open>read_fiemap\<close> returns (and
  stays within its two blocks), because each such chunk grows the result, whose byte
  count must stay below \<open>2 ^ 31\<close> for \<^verbatim>\<open>realloc\<close> to succeed.
\<close>

theorem no_progress_check_but_returns:
  assumes "sane_allocator e" and "honours_capacity e"
  shows "(\<exists>out. read_fiemap e = Some out \<and> returned out \<noteq> Inl Undefined_behaviour) \<and>
    (reachable e len s \<and> fiemap_start s < len \<and>
     ioctl e (length (calls s)) (build_request (fiemap_start s) len) = (rc, fm) \<and>
     0 \<le> rc \<and> fm_mapped_extents fm \<noteq> 0 \<and> \<not> flagged_last fm \<and>
     extent_end (last_mapped fm) \<le> fiemap_start s \<and>
     alloc_ok e (2 + length (calls s))
       (realloc_size (extents_size (result_extents s) (fm_mapped_extents fm))) \<longrightarrow>
     (\<exists>s'. loop_body e len s = Next s' \<and> fiemap_start s' = extent_end (last_mapped fm) \<and>
        result_fm_extents s' = result_fm_extents s @ mapped_extents fm))"
proof (intro conjI impI)
  from assms show "\<exists>out. read_fiemap e = Some out \<and> returned out \<noteq> Inl Undefined_behaviour"
    by (rule read_fiemap_returns)
next
  assume a: "reachable e len s \<and> fiemap_start s < len \<and>
     ioctl e (length (calls s)) (build_request (fiemap_start s) len) = (rc, fm) \<and>
     0 \<le> rc \<and> fm_mapped_extents fm \<noteq> 0 \<and> \<not> flagged_last fm \<and>
     extent_end (last_mapped fm) \<le> fiemap_start s \<and>
     alloc_ok e (2 + length (calls s))
       (realloc_size (extents_size (result_extents s) (fm_mapped_extents fm)))"
  then have r: "reachable e len s"
    and io: "ioctl e (length (calls s)) (build_request (fiemap_start s) len) = (rc, fm)"
    and rc: "0 \<le> rc" and nz: "fm_mapped_extents fm \<noteq> 0" and nl: "\<not> flagged_last fm"
    and alloc: "alloc_ok e (2 + length (calls s))
       (realloc_size (extents_size (result_extents s) (fm_mapped_extents fm)))"
    by simp_all
  let ?b = "build_request (fiemap_start s) len"
  from assms(2) have "0 \<le> fst (ioctl e (length (calls s)) ?b) \<longrightarrow>
      fm_mapped_extents (snd (ioctl e (length (calls s)) ?b)) \<le> fm_extent_count ?b"
    unfolding honours_capacity_def by blast
  with io rc have cap: "fm_mapped_extents fm \<le> MAX_EXTENTS"
    by (simp add: build_request_def)
  from loop_body_granted [OF assms(1) r io rc nz cap alloc] nl
  show "\<exists>s'. loop_body e len s = Next s' \<and> fiemap_start s' = extent_end (last_mapped fm) \<and>
        result_fm_extents s' = result_fm_extents s @ mapped_extents fm"
    by simp
qed

text \<open>C6, witness: the second call reports the first extent again, so the cursor stays
  at 4096; the loop goes on.\<close>

theorem no_progress_check_but_returns_witness:
  "sane_allocator revisits \<and> honours_capacity revisits \<and>
   reachable revisits 8192 (state_after revisits 8192 1) \<and>
   fiemap_start (state_after revisits 8192 1) = 4096 \<and>
   extent_end (last_mapped (reply (next_call revisits 8192 (queries revisits 8192 1)))) = 4096 \<and>
   (\<exists>s'. loop_body revisits 8192 (state_after revisits 8192 1) = Next s' \<and>
      fiemap_start s' = 4096 \<and> result_fm_extents s' = [block False 0, block False 0]) \<and>
   (\<exists>out. read_fiemap revisits = Some out \<and> returned out \<noteq> Inl Undefined_behaviour)"
proof -
  let ?e = revisits
  let ?s = "state_after ?e 8192 1"
  let ?c = "next_call ?e 8192 (queries ?e 8192 1)"
  have sane: "sane_allocator ?e" and hon: "honours_capacity ?e"
    by (simp_all add: revisits_def sane_scripted honours_scripted)
  have r: "reachable ?e 8192 ?s" and lt: "fiemap_start ?s < 8192"
    by (rule reachable_state_after; simp add: revisits_def scripted_eval mapped_total_def)+
  have io: "ioctl ?e (length (calls ?s)) (build_request (fiemap_start ?s) 8192) = (retval ?c, reply ?c)"
    using next_call_ioctl [of ?e "queries ?e 8192 1" 8192]
    by (simp add: state_after_def)
  have cur: "fiemap_start ?s = 4096"
    by (simp add: state_after_def chunk_cursor_def revisits_def scripted_eval)
  have c: "0 \<le> retval ?c" "fm_mapped_extents (reply ?c) \<noteq> 0" "\<not> flagged_last (reply ?c)"
    "extent_end (last_mapped (reply ?c)) = 4096"
    "mapped_extents (reply ?c) = [block False 0]"
    by (simp_all add: revisits_def scripted_eval)
  have ex: "result_fm_extents ?s = [block False 0]"
    by (simp add: state_after_def revisits_def scripted_eval)
  have alloc: "alloc_ok ?e (2 + length (calls ?s))
       (realloc_size (extents_size (result_extents ?s) (fm_mapped_extents (reply ?c))))"
    by (simp add: state_after_def revisits_def scripted_eval mapped_total_def
        extents_size_def realloc_size_def)
  note inst = no_progress_check_but_returns [OF sane hon, of 8192 ?s "retval ?c" "reply ?c"]
  from inst have 1: "\<exists>out. read_fiemap ?e = Some out \<and> returned out \<noteq> Inl Undefined_behaviour"
    by (rule conjunct1)
  from inst r lt io c cur alloc
  have "\<exists>s'. loop_body ?e 8192 ?s = Next s' \<and> fiemap_start s' = extent_end (last_mapped (reply ?c)) \<and>
        result_fm_extents s' = result_fm_extents ?s @ mapped_extents (reply ?c)"
    by simp
  then have 2: "\<exists>s'. loop_body ?e 8192 ?s = Next s' \<and> fiemap_start s' = 4096 \<and>
      result_fm_extents s' = [block False 0, block False 0]"
    by (simp only: c ex) simp
  from sane hon r cur c(4) 2 1 show ?thesis by blast
qed

text \<open>C6, counterexample to the claim as stated: the same run ends in success, with the
  repeated extent in the result, after a third query from the unchanged cursor.\<close>

theorem stalled_cursor_is_not_fatal:
  "read_fiemap revisits \<noteq> None \<and>
   fm_start (request (issued (the (read_fiemap revisits)) ! 1)) = 4096 \<and>
   fm_mapped_extents (reply (issued (the (read_fiemap revisits)) ! 1)) = 1 \<and>
   \<not> flagged_last (reply (issued (the (read_fiemap revisits)) ! 1)) \<and>
   extent_end (last_mapped (reply (issued (the (read_fiemap revisits)) ! 1))) = 4096 \<and>
   fm_start (request (issued (the (read_fiemap revisits)) ! 2)) = 4096 \<and>
   returned (the (read_fiemap revisits)) =
     Inr \<lparr>res_mapped_extents = 3,
          res_extents = [block False 0, block False 0, block True 1]\<rparr>"
proof -
  have n1: "queries revisits 8192 3 ! 1 = next_call revisits 8192 (queries revisits 8192 1)"
    and n2: "queries revisits 8192 3 ! 2 = next_call revisits 8192 (queries revisits 8192 2)"
    by (rule queries_nth; simp)+
  have "fm_start (request (next_call revisits 8192 (queries revisits 8192 1))) = 4096"
    and "fm_mapped_extents (reply (next_call revisits 8192 (queries revisits 8192 1))) = 1"
    and "\<not> flagged_last (reply (next_call revisits 8192 (queries revisits 8192 1)))"
    and "extent_end (last_mapped (reply (next_call revisits 8192 (queries revisits 8192 1)))) = 4096"
    and "fm_start (request (next_call revisits 8192 (queries revisits 8192 2))) = 4096"
    by (simp_all add: revisits_def scripted_eval chunk_cursor_def build_request_def)
  then show ?thesis
    unfolding revisits_run option.sel outcome.simps n1 n2 by simp
qed

text \<open>
  C7. For a file of size 0 (with \<^verbatim>\<open>fstat\<close> and both \<^verbatim>\<open>malloc\<close>s succeeding) the loop body
  never runs: no query is issued and the result is the empty extent sequence with count
  0, not an error.
\<close>

theorem empty_file_no_queries:
  assumes "fstat e = Some 0"
    and "alloc_ok e 0 (sizeof_fiemap + SIZE_OF_EXTENTS)" and "alloc_ok e 1 sizeof_fiemap"
  shows "read_fiemap e =
    Some \<lparr>returned = Inr \<lparr>res_mapped_extents = 0, res_extents = []\<rparr>,
          issued = [], live = {Result_buffer}\<rparr>"
proof -
  have "read_loop e 0 initial_state = Some (finish initial_state)"
    by (subst read_loop.simps) simp
  with read_fiemap_loop [OF assms] show ?thesis
    by (simp add: finish_def initial_state_def)
qed

text \<open>C7, witness: the simulated empty file.\<close>

theorem empty_file_no_queries_witness:
  "fstat empty_file = Some 0 \<and>
   alloc_ok empty_file 0 (sizeof_fiemap + SIZE_OF_EXTENTS) \<and> alloc_ok empty_file 1 sizeof_fiemap \<and>
   read_fiemap empty_file =
     Some \<lparr>returned = Inr \<lparr>res_mapped_extents = 0, res_extents = []\<rparr>,
           issued = [], live = {Result_buffer}\<rparr>"
proof -
  have h: "fstat empty_file = Some 0"
    "alloc_ok empty_file 0 (sizeof_fiemap + SIZE_OF_EXTENTS)" "alloc_ok empty_file 1 sizeof_fiemap"
    by (simp_all add: empty_file_def scripted_eval)
  with empty_file_no_queries [OF h] show ?thesis by simp
qed

text \<open>
  C8, as amended. A file whose size cannot be read produces the file-size lookup failure
  and no query. (A zero-size file does not: see C7 and the counterexample below.)
\<close>

theorem unreadable_size_fails:
  assumes "fstat e = None"
  shows "read_fiemap e = Some \<lparr>returned = Inl Cannot_determine_file_size, issued = [], live = {}\<rparr>"
  using assms by (simp add: read_fiemap_def)

text \<open>C8, witness: a descriptor on which \<^verbatim>\<open>fstat\<close> fails.\<close>

theorem unreadable_size_fails_witness:
  "fstat unreadable = None \<and>
   read_fiemap unreadable =
     Some \<lparr>returned = Inl Cannot_determine_file_size, issued = [], live = {}\<rparr>"
proof -
  have h: "fstat unreadable = None" by (simp add: unreadable_def)
  with unreadable_size_fails [OF h] show ?thesis by simp
qed

text \<open>C8, counterexample to the claim as stated: the zero-size file gets a successful,
  empty result.\<close>

theorem zero_size_is_no_error:
  "fstat empty_file = Some 0 \<and> read_fiemap empty_file \<noteq> None \<and>
   \<not> isl (returned (the (read_fiemap empty_file))) \<and>
   returned (the (read_fiemap empty_file)) = Inr \<lparr>res_mapped_extents = 0, res_extents = []\<rparr>"
proof -
  have "read_loop empty_file 0 initial_state = Some (finish initial_state)"
    by (subst read_loop.simps) simp
  then show ?thesis
    by (simp add: read_fiemap_def empty_file_def scripted_eval finish_def initial_state_def)
qed

text \<open>
  C9. \<^verbatim>\<open>main\<close> exits with a nonzero status exactly when no file argument is given (it
  then prints the usage line). With at least one file argument it exits with
  \<^verbatim>\<open>EXIT_SUCCESS\<close> after one message per argument, in order: a file that cannot be
  opened or whose \<^verbatim>\<open>read_fiemap\<close> fails gets its error message and is skipped, and the
  files after it are still processed. (The environments are those in which
  \<^verbatim>\<open>read_fiemap\<close> has defined behaviour: no allocation above \<^verbatim>\<open>PTRDIFF_MAX\<close> is granted
  and the kernel maps no more extents than the buffer holds.)
\<close>

theorem main_exit_status:
  assumes "\<forall>i name e. open_file i name = Some e \<longrightarrow> sane_allocator e \<and> honours_capacity e"
  shows "\<exists>status msgs. main open_file (prog # files) = Some (Exit status msgs) \<and>
           (status \<noteq> 0 \<longleftrightarrow> files = []) \<and>
           (files = [] \<longrightarrow> status = EXIT_FAILURE \<and> msgs = [Syntax prog]) \<and>
           (files \<noteq> [] \<longrightarrow> status = EXIT_SUCCESS \<and> length msgs = length files \<and>
              (\<forall>j<length files. reported open_file (Suc j) (files ! j) (msgs ! j)))"
proof (cases files)
  case Nil
  then show ?thesis by (simp add: main_def EXIT_FAILURE_def)
next
  case (Cons name rest)
  from process_files_exits [OF assms, of 1 files "[]"] obtain msgs where
    "process_files open_file 1 files [] = Some (Exit EXIT_SUCCESS msgs)"
    "length msgs = length files"
    "\<forall>j<length files. reported open_file (Suc j) (files ! j) (msgs ! j)"
    by auto
  with Cons show ?thesis
    by (intro exI [of _ EXIT_SUCCESS] exI [of _ msgs]) (simp add: main_def EXIT_SUCCESS_def)
qed

text \<open>C9, witness: no argument; and four arguments, of which the first cannot be opened
  and the second fails at its second query.\<close>

theorem main_exit_status_witness:
  "sane_allocator second_call_fails \<and> honours_capacity second_call_fails \<and>
   sane_allocator two_chunks \<and> honours_capacity two_chunks \<and>
   main some_files [''fiemap''] = Some (Exit 1 [Syntax ''fiemap'']) \<and>
   main some_files [''fiemap'', ''missing'', ''broken'', ''a'', ''b''] =
     Some (Exit 0 [Cannot_open ''missing'', Read_failed Ioctl_failed,
                   File_has_extents ''a'' 2, File_has_extents ''b'' 2])"
proof -
  have env: "sane_allocator second_call_fails" "honours_capacity second_call_fails"
    "sane_allocator two_chunks" "honours_capacity two_chunks"
    by (simp_all add: second_call_fails_def two_chunks_def sane_scripted honours_scripted)
  then have ok: "\<forall>i name e. some_files i name = Some e \<longrightarrow>
      sane_allocator e \<and> honours_capacity e"
    by (simp add: some_files_def)
  from main_exit_status [OF ok, of "''fiemap''" "[]"]
  have none: "main some_files [''fiemap''] = Some (Exit 1 [Syntax ''fiemap''])"
    by (auto simp: EXIT_FAILURE_def)
  let ?files = "[''missing'', ''broken'', ''a'', ''b'']"
  from main_exit_status [OF ok, of "''fiemap''" ?files]
  obtain status msgs where run: "main some_files (''fiemap'' # ?files) = Some (Exit status msgs)"
    and st: "status = EXIT_SUCCESS" and len: "length msgs = 4"
    and each: "\<forall>j<4. reported some_files (Suc j) (?files ! j) (msgs ! j)"
    by auto
  from each [rule_format, of 0] have "msgs ! 0 = Cannot_open ''missing''"
    by (simp add: reported_def some_files_def)
  moreover from each [rule_format, of 1] have "msgs ! 1 = Read_failed Ioctl_failed"
    by (simp add: reported_def some_files_def second_call_fails_run)
  moreover from each [rule_format, of 2] have "msgs ! 2 = File_has_extents ''a'' 2"
    by (simp add: reported_def some_files_def two_chunks_run)
  moreover from each [rule_format, of 3] have "msgs ! 3 = File_has_extents ''b'' 2"
    by (simp add: reported_def some_files_def two_chunks_run)
  ultimately have "msgs = [Cannot_open ''missing'', Read_failed Ioctl_failed,
      File_has_extents ''a'' 2, File_has_extents ''b'' 2]"
    using len by (intro nth_equalityI) (auto simp: nth_Cons' less_Suc_eq numeral_eq_Suc)
  with run st env none show ?thesis by (simp add: EXIT_SUCCESS_def)
qed

text \<open>
  C10. The cursor reaching the file size ends the loop successfully: when a chunk maps
  at least one extent, its last extent is not flagged last, and that extent ends at or
  past the file size, the chunk is appended and \<^verbatim>\<open>read_fiemap\<close> returns the accumulated
  result without another query.
\<close>

theorem cursor_at_file_size_stops:
  assumes "fstat e = Some len"
    and "alloc_ok e 0 (sizeof_fiemap + SIZE_OF_EXTENTS)" and "alloc_ok e 1 sizeof_fiemap"
    and "sane_allocator e"
    and "reachable e len s" and "fiemap_start s < len"
    and "ioctl e (length (calls s)) (build_request (fiemap_start s) len) = (rc, fm)"
    and "0 \<le> rc" and "fm_mapped_extents fm \<noteq> 0" and "fm_mapped_extents fm \<le> MAX_EXTENTS"
    and "alloc_ok e (2 + length (calls s))
       (realloc_size (extents_size (result_extents s) (fm_mapped_extents fm)))"
    and "\<not> flagged_last fm" and "len \<le> extent_end (last_mapped fm)"
  shows "read_fiemap e =
    Some \<lparr>returned = Inr \<lparr>res_mapped_extents = result_extents s + fm_mapped_extents fm,
                            res_extents = result_fm_extents s @ mapped_extents fm\<rparr>,
          issued = calls s @
            [\<lparr>request = build_request (fiemap_start s) len, retval = rc, reply = fm\<rparr>],
          live = {Result_buffer}\<rparr>"
proof -
  let ?s' = "\<lparr>result_extents = result_extents s + fm_mapped_extents fm,
       fiemap_start = extent_end (last_mapped fm),
       result_fm_extents = result_fm_extents s @ mapped_extents fm,
       calls = calls s @ [\<lparr>request = build_request (fiemap_start s) len, retval = rc, reply = fm\<rparr>]\<rparr>"
  from loop_body_granted [OF assms(4,5,7-11)] assms(12)
  have body: "loop_body e len s = Next ?s'" by simp
  from assms(13) have "\<not> fiemap_start ?s' < len"
    by (simp add: not_less)
  then have "read_loop e len ?s' = Some (finish ?s')"
    by (subst read_loop.simps) (simp only: if_False)
  with body assms(6) have "read_loop e len s = Some (finish ?s')"
    by (subst read_loop.simps) simp
  with read_loop_reachable [OF assms(5)] read_fiemap_loop [OF assms(1-3)]
  show ?thesis by (simp add: finish_def)
qed

text \<open>C10, witness: one chunk of two unflagged extents that cover the whole file.\<close>

theorem cursor_at_file_size_stops_witness:
  "reachable past_the_end 8192 initial_state \<and>
   \<not> flagged_last (reply (next_call past_the_end 8192 [])) \<and>
   (8192 :: 64 word) \<le> extent_end (last_mapped (reply (next_call past_the_end 8192 []))) \<and>
   read_fiemap past_the_end \<noteq> None \<and>
   returned (the (read_fiemap past_the_end)) =
     Inr \<lparr>res_mapped_extents = 2, res_extents = [block False 0, block False 1]\<rparr> \<and>
   length (issued (the (read_fiemap past_the_end))) = 1"
proof -
  let ?c = "next_call past_the_end 8192 []"
  have io: "ioctl past_the_end (length (calls initial_state))
      (build_request (fiemap_start initial_state) 8192) = (retval ?c, reply ?c)"
    using next_call_ioctl [of past_the_end "[]" 8192]
    by (simp add: initial_state_def chunk_cursor_def)
  have h: "fstat past_the_end = Some 8192"
    "alloc_ok past_the_end 0 (sizeof_fiemap + SIZE_OF_EXTENTS)"
    "alloc_ok past_the_end 1 sizeof_fiemap"
    "sane_allocator past_the_end"
    by (simp_all add: past_the_end_def scripted_eval sane_scripted)
  have r: "reachable past_the_end 8192 initial_state"
    by (rule reachable.start)
  have lt: "fiemap_start initial_state < 8192"
    by (simp add: initial_state_def)
  have c: "0 \<le> retval ?c" "fm_mapped_extents (reply ?c) \<noteq> 0"
    "fm_mapped_extents (reply ?c) \<le> MAX_EXTENTS"
    "alloc_ok past_the_end (2 + length (calls initial_state))
       (realloc_size (extents_size (result_extents initial_state) (fm_mapped_extents (reply ?c))))"
    "\<not> flagged_last (reply ?c)" "8192 \<le> extent_end (last_mapped (reply ?c))"
    by (simp_all add: past_the_end_def scripted_eval initial_state_def
        extents_size_def realloc_size_def)
  have "mapped_extents (reply ?c) = [block False 0, block False 1]"
    by (simp add: past_the_end_def scripted_eval)
  with cursor_at_file_size_stops [OF h r lt io c] r c(5,6) show ?thesis
    by (simp add: initial_state_def past_the_end_def scripted_eval)
qed

end
